theory Spec2Isabelle
  imports Main
begin

section \<open>Strings and errors\<close>

text \<open>
  The program is \<^verbatim>\<open>src/fix_imports.py\<close>. Python strings are modelled as
  \<^typ>\<open>string\<close>, one \<^typ>\<open>char\<close> for each code point below 256; a raised exception is
  the left injection of a sum type. The two \<^verbatim>\<open>OSError\<close> classes carry the
  \<^verbatim>\<open>filename\<close> attribute (\<open>None\<close> when \<^verbatim>\<open>os.getcwd()\<close> raises), the other exceptions
  their message.
\<close>

datatype py_error =
    FileNotFoundError "string option"
  | PermissionError "string option"
  | UnicodeDecodeError string
  | IndexError string
  | ValueError string

text \<open>
  \<^verbatim>\<open>repr(s)\<close> of a string: single quotes unless the string has a single and no double
  quote; the quote in use and the backslash are escaped, tab, newline and carriage
  return are written \<^verbatim>\<open>\t\<close>, \<^verbatim>\<open>\n\<close>, \<^verbatim>\<open>\r\<close>, every other code point that is not
  printable as \<^verbatim>\<open>\xNN\<close>.
\<close>

definition hex_digit :: "nat \<Rightarrow> char" where
  "hex_digit n = ''0123456789abcdef'' ! (n mod 16)"

definition repr_quote :: "string \<Rightarrow> char" where
  "repr_quote s = (if CHR 0x27 \<in> set s \<and> CHR 0x22 \<notin> set s then CHR 0x22 else CHR 0x27)"

definition repr_char :: "char \<Rightarrow> char \<Rightarrow> string" where
  "repr_char quote c =
     (let n = (of_char c :: nat)
      in if c = quote \<or> c = CHR 0x5C then [CHR 0x5C, c]
         else if c = CHR 0x09 then [CHR 0x5C, CHR ''t'']
         else if c = CHR 0x0A then [CHR 0x5C, CHR ''n'']
         else if c = CHR 0x0D then [CHR 0x5C, CHR ''r'']
         else if n < 32 \<or> n = 127 \<or> (128 \<le> n \<and> n \<le> 160) \<or> n = 173
              then [CHR 0x5C, CHR ''x'', hex_digit (n div 16), hex_digit n]
         else [c])"

definition py_repr :: "string \<Rightarrow> string" where
  "py_repr s = repr_quote s # concat (map (repr_char (repr_quote s)) s) @ [repr_quote s]"

text \<open>\<^verbatim>\<open>str(e)\<close>, as \<^verbatim>\<open>print(f"... {e}")\<close> shows it.\<close>

fun error_str :: "py_error \<Rightarrow> string" where
  "error_str (FileNotFoundError None) = ''[Errno 2] No such file or directory''"
| "error_str (FileNotFoundError (Some f)) = ''[Errno 2] No such file or directory: '' @ py_repr f"
| "error_str (PermissionError None) = ''[Errno 13] Permission denied''"
| "error_str (PermissionError (Some f)) = ''[Errno 13] Permission denied: '' @ py_repr f"
| "error_str (UnicodeDecodeError m) = m"
| "error_str (IndexError m) = m"
| "error_str (ValueError m) = m"

text \<open>\<^verbatim>\<open>s.startswith(p)\<close>, \<^verbatim>\<open>s.endswith(p)\<close> and \<^verbatim>\<open>p in s\<close>.\<close>

definition startswith :: "string \<Rightarrow> string \<Rightarrow> bool" where
  "startswith s p = (take (length p) s = p)"

definition endswith :: "string \<Rightarrow> string \<Rightarrow> bool" where
  "endswith s p = (length p \<le> length s \<and> drop (length s - length p) s = p)"

fun str_contains :: "string \<Rightarrow> string \<Rightarrow> bool" where
  "str_contains p [] = (p = [])"
| "str_contains p (c # cs) = (startswith (c # cs) p \<or> str_contains p cs)"

text \<open>\<^verbatim>\<open>s.split(sep)\<close> for a one-character separator: never the empty list.\<close>

fun split_sep :: "char \<Rightarrow> string \<Rightarrow> string list" where
  "split_sep sep [] = [[]]"
| "split_sep sep (c # cs) =
     (if c = sep then [] # split_sep sep cs
      else (case split_sep sep cs of x # xs \<Rightarrow> (c # x) # xs | [] \<Rightarrow> [[c]]))"

text \<open>\<^verbatim>\<open>sep.join(comps)\<close>.\<close>

fun join_sep :: "char \<Rightarrow> string list \<Rightarrow> string" where
  "join_sep sep [] = []"
| "join_sep sep [x] = x"
| "join_sep sep (x # y # ys) = x @ sep # join_sep sep (y # ys)"

text \<open>\<^verbatim>\<open>s.rfind(c) + 1\<close>: the position after the last \<open>c\<close>, or 0 when there is none.\<close>

definition rfind_end :: "char \<Rightarrow> string \<Rightarrow> nat" where
  "rfind_end c s = length s - length (takeWhile (\<lambda>d. d \<noteq> c) (rev s))"

definition rstrip :: "char \<Rightarrow> string \<Rightarrow> string" where
  "rstrip c s = rev (dropWhile (\<lambda>d. d = c) (rev s))"

section \<open>The functions of \<^verbatim>\<open>os.path\<close> on a POSIX host\<close>

text \<open>
  The script calls \<^verbatim>\<open>os.path\<close> and splits on \<^verbatim>\<open>os.sep\<close>; the model is the POSIX
  implementation (\<^verbatim>\<open>posixpath\<close>), separator \<open>/\<close>.
\<close>

definition isabs :: "string \<Rightarrow> bool" where
  "isabs p = startswith p ''/''"

text \<open>\<^verbatim>\<open>os.path.join(a, b)\<close>, and \<^verbatim>\<open>os.path.join(*xs)\<close> for a non-empty list.\<close>

definition join :: "string \<Rightarrow> string \<Rightarrow> string" where
  "join a b =
     (if startswith b ''/'' then b
      else if a = [] \<or> endswith a ''/'' then a @ b
      else a @ ''/'' @ b)"

definition join_list :: "string list \<Rightarrow> string" where
  "join_list xs = foldl join (hd xs) (tl xs)"

definition dirname :: "string \<Rightarrow> string" where
  "dirname p =
     (let head = take (rfind_end CHR ''/'' p) p
      in if head \<noteq> [] \<and> head \<noteq> replicate (length head) CHR ''/''
         then rstrip CHR ''/'' head else head)"

definition basename :: "string \<Rightarrow> string" where
  "basename p = drop (rfind_end CHR ''/'' p) p"

text \<open>
  \<^verbatim>\<open>os.path.splitext\<close>: the extension starts at the last dot of the last component,
  unless that component has only dots before it.
\<close>

definition splitext :: "string \<Rightarrow> string \<times> string" where
  "splitext p =
     (let sepEnd = rfind_end CHR ''/'' p; dotEnd = rfind_end CHR ''.'' p
      in if sepEnd < dotEnd \<and>
            list_ex (\<lambda>c. c \<noteq> CHR ''.'') (take (dotEnd - 1 - sepEnd) (drop sepEnd p))
         then (take (dotEnd - 1) p, drop (dotEnd - 1) p)
         else (p, []))"

text \<open>
  The loop of \<^verbatim>\<open>os.path.normpath\<close> over the components: \<open>ini\<close> says that the path
  starts with a slash, \<open>new\<close> is \<^verbatim>\<open>new_comps\<close>.
\<close>

fun norm_comps :: "bool \<Rightarrow> string list \<Rightarrow> string list \<Rightarrow> string list" where
  "norm_comps ini [] new = new"
| "norm_comps ini (cmp # comps) new =
     (if cmp = [] \<or> cmp = ''.'' then norm_comps ini comps new
      else if cmp \<noteq> ''..'' \<or> (\<not> ini \<and> new = []) \<or> (new \<noteq> [] \<and> last new = ''..'')
           then norm_comps ini comps (new @ [cmp])
      else if new \<noteq> [] then norm_comps ini comps (butlast new)
      else norm_comps ini comps new)"

definition initial_slashes :: "string \<Rightarrow> nat" where
  "initial_slashes path =
     (if startswith path ''/''
      then (if startswith path ''//'' \<and> \<not> startswith path ''///'' then 2 else 1)
      else 0)"

definition normpath :: "string \<Rightarrow> string" where
  "normpath path =
     (if path = [] then ''.''
      else let n = initial_slashes path;
               comps = norm_comps (n \<noteq> 0) (split_sep CHR ''/'' path) [];
               path' = replicate n CHR ''/'' @ join_sep CHR ''/'' comps
           in if path' = [] then ''.'' else path')"

text \<open>
  \<^verbatim>\<open>os.path.abspath\<close> asks \<^verbatim>\<open>os.getcwd()\<close> for a relative path only; \<open>cwd\<close> is the
  outcome of that call, which raises when the working directory is gone.
\<close>

definition abspath :: "py_error + string \<Rightarrow> string \<Rightarrow> py_error + string" where
  "abspath cwd path =
     (if \<not> isabs path
      then (case cwd of Inl e \<Rightarrow> Inl e | Inr d \<Rightarrow> Inr (normpath (join d path)))
      else Inr (normpath path))"

fun commonprefix :: "'a list \<Rightarrow> 'a list \<Rightarrow> 'a list" where
  "commonprefix (x # xs) (y # ys) = (if x = y then x # commonprefix xs ys else [])"
| "commonprefix _ _ = []"

definition path_segments :: "string \<Rightarrow> string list" where
  "path_segments p = filter (\<lambda>x. x \<noteq> []) (split_sep CHR ''/'' p)"

definition relpath :: "py_error + string \<Rightarrow> string \<Rightarrow> string \<Rightarrow> py_error + string" where
  "relpath cwd path start =
     (if path = [] then Inl (ValueError ''no path specified'')
      else case abspath cwd start of Inl e \<Rightarrow> Inl e | Inr start_abs \<Rightarrow>
           (case abspath cwd path of Inl e \<Rightarrow> Inl e | Inr path_abs \<Rightarrow>
              (let start_list = path_segments start_abs;
                   path_list = path_segments path_abs;
                   i = length (commonprefix start_list path_list);
                   rel_list = replicate (length start_list - i) ''..'' @ drop i path_list
               in if rel_list = [] then Inr ''.'' else Inr (join_list rel_list))))"

section \<open>The location map and the resolver\<close>

definition MAPPING_items :: "(string \<times> string) list" where
  "MAPPING_items =
    [(''SetupWizard'', ''features/onboarding/SetupWizard''),
     (''RecordingControls'', ''features/capture/RecordingControls''),
     (''LiveTranscript'', ''features/capture/LiveTranscript''),
     (''MeetingDetectionBanner'', ''features/capture/MeetingDetectionBanner''),
     (''VideoDiagnostics'', ''features/capture/VideoDiagnostics''),
     (''MeetingHistory'', ''features/memory/MeetingHistory''),
     (''RewindTimeline'', ''features/memory/RewindTimeline''),
     (''RewindGallery'', ''features/memory/RewindGallery''),
     (''SyncedTimeline'', ''features/memory/SyncedTimeline''),
     (''AmbientTimeline'', ''features/memory/AmbientTimeline''),
     (''ActivityTimeline'', ''features/memory/ActivityTimeline''),
     (''RecordingsLibrary'', ''features/memory/RecordingsLibrary''),
     (''AIChat'', ''features/intelligence/AIChat''),
     (''CopilotPanel'', ''features/intelligence/CopilotPanel''),
     (''MeetingIntelPanel'', ''features/intelligence/MeetingIntelPanel''),
     (''LearnedDataEditor'', ''features/intelligence/LearnedDataEditor''),
     (''EntitiesView'', ''features/intelligence/EntitiesView''),
     (''PromptBrowser'', ''features/intelligence/PromptBrowser''),
     (''PromptLibrary'', ''features/intelligence/PromptLibrary''),
     (''ComparisonLab'', ''features/intelligence/ComparisonLab''),
     (''Settings'', ''features/settings/Settings''),
     (''FullSettings'', ''features/settings/FullSettings''),
     (''AISettings'', ''features/settings/AISettings''),
     (''IngestSettings'', ''features/settings/IngestSettings''),
     (''KnowledgeBaseSettings'', ''features/settings/KnowledgeBaseSettings''),
     (''PermissionsStatus'', ''features/settings/PermissionsStatus''),
     (''ThemeSelector'', ''features/settings/ThemeSelector''),
     (''TranscriptionSettings'', ''features/settings/TranscriptionSettings''),
     (''AlwaysOnSettings'', ''features/settings/AlwaysOnSettings''),
     (''ActivityThemesSettings'', ''features/settings/ActivityThemesSettings''),
     (''InsightsView'', ''features/analytics/InsightsView''),
     (''StorageMeter'', ''features/analytics/StorageMeter''),
     (''SystemStatus'', ''features/analytics/SystemStatus''),
     (''AuditLog'', ''features/analytics/AuditLog''),
     (''AdminConsole'', ''features/analytics/AdminConsole''),
     (''ToolsConsole'', ''features/analytics/ToolsConsole''),
     (''GlobalErrorBoundary'', ''components/common/GlobalErrorBoundary''),
     (''CommandPalette'', ''components/common/CommandPalette''),
     (''SearchBar'', ''components/common/SearchBar''),
     (''KBSearch'', ''components/common/KBSearch''),
     (''Sidebar'', ''components/layout/Sidebar''),
     (''Help'', ''components/layout/Help'')]"

definition MAPPING :: "string \<rightharpoonup> string" where
  "MAPPING = map_of MAPPING_items"

text \<open>
  \<^verbatim>\<open>SRC_ROOT = os.path.abspath("src")\<close> is computed once, when the module is loaded,
  from the working directory \<open>cwd0\<close> of that moment.
\<close>

definition SRC_ROOT :: "string \<Rightarrow> string" where
  "SRC_ROOT cwd0 = normpath (join cwd0 ''src'')"

text \<open>
  \<^verbatim>\<open>get_relative_path(from_file, to_target)\<close>; \<open>root\<close> is the value of the global
  \<^verbatim>\<open>SRC_ROOT\<close>, \<open>cwd\<close> the outcome of \<^verbatim>\<open>os.getcwd()\<close> at the time of the call.
\<close>

definition get_relative_path ::
  "string \<Rightarrow> py_error + string \<Rightarrow> string \<Rightarrow> string \<Rightarrow> py_error + string" where
  "get_relative_path root cwd from_file to_target =
     (let from_dir = dirname from_file;
          target_abs = join root to_target
      in case relpath cwd target_abs from_dir of
           Inl e \<Rightarrow> Inl e
         | Inr rel \<Rightarrow> Inr (if \<not> startswith rel ''.'' then ''./'' @ rel else rel))"

section \<open>Regular expressions: the part of \<^verbatim>\<open>re\<close> the script uses\<close>

text \<open>
  The three patterns of the script are sequences of literals, single characters of a
  class, a greedy \<^verbatim>\<open>+\<close>, a lazy \<^verbatim>\<open>*?\<close> and a greedy \<^verbatim>\<open>?\<close> over a class, optionally
  behind a fixed-width negative lookbehind. \<open>re_atoms\<close> is the backtracking matcher:
  it returns the text consumed by each atom in the first match that backtracking finds,
  the greedy atoms trying the longer alternative first, the lazy one the shorter.
\<close>

datatype atom =
    Lit string
  | One "char \<Rightarrow> bool"
  | Plus "char \<Rightarrow> bool"
  | LazyStar "char \<Rightarrow> bool"
  | Opt "char \<Rightarrow> bool"

fun re_atoms :: "atom list \<Rightarrow> string \<Rightarrow> string list option" where
  "re_atoms [] s = Some []"
| "re_atoms (Lit l # as) s =
     (if startswith s l then map_option ((#) l) (re_atoms as (drop (length l) s)) else None)"
| "re_atoms (One P # as) [] = None"
| "re_atoms (One P # as) (c # cs) =
     (if P c then map_option ((#) [c]) (re_atoms as cs) else None)"
| "re_atoms (Plus P # as) [] = None"
| "re_atoms (Plus P # as) (c # cs) =
     (if P c
      then (case re_atoms (Plus P # as) cs of
              Some (g # r) \<Rightarrow> Some ((c # g) # r)
            | _ \<Rightarrow> map_option ((#) [c]) (re_atoms as cs))
      else None)"
| "re_atoms (LazyStar P # as) [] = map_option ((#) []) (re_atoms as [])"
| "re_atoms (LazyStar P # as) (c # cs) =
     (case re_atoms as (c # cs) of
        Some r \<Rightarrow> Some ([] # r)
      | None \<Rightarrow>
          (if P c
           then (case re_atoms (LazyStar P # as) cs of
                   Some (g # r) \<Rightarrow> Some ((c # g) # r)
                 | _ \<Rightarrow> None)
           else None))"
| "re_atoms (Opt P # as) [] = map_option ((#) []) (re_atoms as [])"
| "re_atoms (Opt P # as) (c # cs) =
     (if P c
      then (case re_atoms as cs of
              Some r \<Rightarrow> Some ([c] # r)
            | None \<Rightarrow> map_option ((#) []) (re_atoms as (c # cs)))
      else map_option ((#) []) (re_atoms as (c # cs)))"

text \<open>
  A pattern: the text that must not stand right before the match (the negative
  lookbehind at the head of the pattern, if any), the atoms, and how many atoms each
  capture group spans. The groups of the script's patterns cover the whole pattern, so
  \<^verbatim>\<open>group(0)\<close> is the concatenation of the groups.
\<close>

record regex =
  not_after :: "string option"
  atoms :: "atom list"
  group_sizes :: "nat list"

fun regroup :: "nat list \<Rightarrow> string list \<Rightarrow> string list" where
  "regroup [] parts = []"
| "regroup (n # ns) parts = concat (take n parts) # regroup ns (drop n parts)"

text \<open>A match of the pattern that starts here; \<open>prev\<close> is the text before this position.\<close>

definition re_match :: "regex \<Rightarrow> string \<Rightarrow> string \<Rightarrow> string list option" where
  "re_match rx prev s =
     (if (case not_after rx of None \<Rightarrow> False | Some b \<Rightarrow> endswith prev b) then None
      else map_option (regroup (group_sizes rx)) (re_atoms (atoms rx) s))"

text \<open>
  \<^verbatim>\<open>pattern.sub(repl, text)\<close> with a callback: the leftmost match at each position is
  replaced, the scan goes on behind it. The callback also returns the lines it prints.
  The script's patterns all contain a literal, so the branch for an empty match (Python
  then copies one character and goes on) is never taken by them.
\<close>

function re_sub ::
  "regex \<Rightarrow> (string list \<Rightarrow> string \<times> string list) \<Rightarrow> string \<Rightarrow> string
     \<Rightarrow> string \<times> string list" where
  "re_sub rx repl prev [] =
     (case re_match rx prev [] of None \<Rightarrow> ([], []) | Some m \<Rightarrow> repl m)"
| "re_sub rx repl prev (c # cs) =
     (case re_match rx prev (c # cs) of
        None \<Rightarrow>
          (case re_sub rx repl (prev @ [c]) cs of (r, out) \<Rightarrow> (c # r, out))
      | Some m \<Rightarrow>
          (case repl m of (t, out1) \<Rightarrow>
             (if length (concat m) = 0
              then (case re_sub rx repl (prev @ [c]) cs of
                      (r, out2) \<Rightarrow> (t @ c # r, out1 @ out2))
              else (case re_sub rx repl (prev @ take (length (concat m)) (c # cs))
                           (drop (length (concat m)) (c # cs)) of
                      (r, out2) \<Rightarrow> (t @ r, out1 @ out2)))))"
  by pat_completeness auto
termination
  by (relation "measure (\<lambda>(rx, repl, prev, s). length s)") auto

text \<open>
  What that scan finds in a text, whatever the callback returns (it is the scan of
  \<^verbatim>\<open>pattern.finditer\<close> too): the matches in order, each with its groups, and the
  characters between them.
\<close>

datatype segment = Gap string | Found "string list"

function re_scan :: "regex \<Rightarrow> string \<Rightarrow> string \<Rightarrow> segment list" where
  "re_scan rx prev [] = (case re_match rx prev [] of None \<Rightarrow> [] | Some m \<Rightarrow> [Found m])"
| "re_scan rx prev (c # cs) =
     (case re_match rx prev (c # cs) of
        None \<Rightarrow> Gap [c] # re_scan rx (prev @ [c]) cs
      | Some m \<Rightarrow>
          (if length (concat m) = 0
           then Found m # Gap [c] # re_scan rx (prev @ [c]) cs
           else Found m # re_scan rx (prev @ take (length (concat m)) (c # cs))
                            (drop (length (concat m)) (c # cs))))"
  by pat_completeness auto
termination
  by (relation "measure (\<lambda>(rx, prev, s). length s)") auto

text \<open>The text a segment stands for, and what a substitution makes of it and prints.\<close>

fun seg_source :: "segment \<Rightarrow> string" where
  "seg_source (Gap g) = g"
| "seg_source (Found gs) = concat gs"

fun seg_text :: "(string list \<Rightarrow> string \<times> string list) \<Rightarrow> segment \<Rightarrow> string" where
  "seg_text repl (Gap g) = g"
| "seg_text repl (Found gs) = fst (repl gs)"

fun seg_out :: "(string list \<Rightarrow> string \<times> string list) \<Rightarrow> segment \<Rightarrow> string list" where
  "seg_out repl (Gap g) = []"
| "seg_out repl (Found gs) = snd (repl gs)"

definition segs_source :: "segment list \<Rightarrow> string" where
  "segs_source segs = concat (map seg_source segs)"

definition segs_text :: "(string list \<Rightarrow> string \<times> string list) \<Rightarrow> segment list \<Rightarrow> string" where
  "segs_text repl segs = concat (map (seg_text repl) segs)"

definition segs_out ::
  "(string list \<Rightarrow> string \<times> string list) \<Rightarrow> segment list \<Rightarrow> string list" where
  "segs_out repl segs = concat (map (seg_out repl) segs)"

text \<open>\<^verbatim>\<open>\s\<close> on a Unicode pattern, for the code points below 256, and \<^verbatim>\<open>.\<close> without
  and with \<^verbatim>\<open>re.DOTALL\<close>.\<close>

definition is_space :: "char \<Rightarrow> bool" where
  "is_space c = (of_char c \<in> {9, 10, 11, 12, 13, 28, 29, 30, 31, 32, 133, 160 :: nat})"

definition is_quote :: "char \<Rightarrow> bool" where
  "is_quote c = (c = CHR 0x22 \<or> c = CHR 0x27)"

definition any_char :: "char \<Rightarrow> bool" where
  "any_char c = True"

definition not_newline :: "char \<Rightarrow> bool" where
  "not_newline c = (c \<noteq> CHR 0x0A)"

text \<open>\<^verbatim>\<open>r'(?<!\.\./)\.\./' + folder\<close>\<close>

definition depth_pattern :: "string \<Rightarrow> regex" where
  "depth_pattern folder =
     \<lparr>not_after = Some ''../'', atoms = [Lit (''../'' @ folder)], group_sizes = [1]\<rparr>"

text \<open>\<^verbatim>\<open>r'(import\s+.*?from\s+)(["\'])(.*?)(["\'];?)'\<close> with \<^verbatim>\<open>re.DOTALL\<close>\<close>

definition import_pattern :: regex where
  "import_pattern =
     \<lparr>not_after = None,
      atoms = [Lit ''import'', Plus is_space, LazyStar any_char, Lit ''from'', Plus is_space,
               One is_quote,
               LazyStar any_char,
               One is_quote, Opt (\<lambda>c. c = CHR '';'')],
      group_sizes = [5, 1, 1, 2]\<rparr>"

text \<open>\<^verbatim>\<open>r'(import\()(["\'])(.*?)(["\']\))'\<close>\<close>

definition dynamic_import_pattern :: regex where
  "dynamic_import_pattern =
     \<lparr>not_after = None,
      atoms = [Lit ''import('',
               One is_quote,
               LazyStar not_newline,
               One is_quote, Lit '')''],
      group_sizes = [1, 1, 1, 2]\<rparr>"

section \<open>The rewriting of one file\<close>

text \<open>The four groups of an import match; \<^verbatim>\<open>match.group(0)\<close> is \<open>full_match\<close>.\<close>

record import_match =
  group1 :: string
  group2 :: string
  group3 :: string
  group4 :: string

definition full_match :: "import_match \<Rightarrow> string" where
  "full_match m = group1 m @ group2 m @ group3 m @ group4 m"

definition import_match_of :: "string list \<Rightarrow> import_match" where
  "import_match_of gs = \<lparr>group1 = gs ! 0, group2 = gs ! 1, group3 = gs ! 2, group4 = gs ! 3\<rparr>"

text \<open>
  The body of the \<^verbatim>\<open>try\<close> block of \<^verbatim>\<open>replace_import\<close>. \<open>None\<close> is the fall through
  to the \<^verbatim>\<open>return full_match\<close> behind the handler.
\<close>

definition replace_import_try ::
  "string \<Rightarrow> py_error + string \<Rightarrow> string \<Rightarrow> import_match \<Rightarrow> py_error + string option" where
  "replace_import_try root cwd filepath m =
     (let quote = group2 m; path_str = group3 m; current_dir = dirname filepath
      in if \<not> startswith path_str ''.'' then Inr (Some (full_match m))
         else if endswith path_str ''.css''
         then (if str_contains ''VideoDiagnostics.module.css'' path_str
                  \<and> str_contains ''VideoDiagnostics'' filepath
               then Inr (Some (full_match m))
               else Inr (Some (full_match m)))
         else
           (let basename0 = basename path_str;
                basename1 = (if endswith basename0 ''.tsx'' \<or> endswith basename0 ''.ts''
                             then fst (splitext basename0) else basename0)
            in case MAPPING basename1 of
                 Some target \<Rightarrow>
                   (case get_relative_path root cwd filepath target of
                      Inl e \<Rightarrow> Inl e
                    | Inr new_rel \<Rightarrow> Inr (Some (group1 m @ quote @ new_rel @ quote @ group4 m)))
               | None \<Rightarrow>
                   (if str_contains ''components/'' path_str
                    then (let possible_name = basename path_str
                          in case MAPPING possible_name of
                               Some target \<Rightarrow>
                                 (case get_relative_path root cwd filepath target of
                                    Inl e \<Rightarrow> Inl e
                                  | Inr new_rel \<Rightarrow>
                                      Inr (Some (group1 m @ quote @ new_rel @ quote @ group4 m)))
                             | None \<Rightarrow> Inr None)
                    else Inr None)))"

text \<open>\<^verbatim>\<open>replace_import\<close>: the replacement text and the lines printed.\<close>

definition replace_import ::
  "string \<Rightarrow> py_error + string \<Rightarrow> string \<Rightarrow> import_match \<Rightarrow> string \<times> string list" where
  "replace_import root cwd filepath m =
     (case replace_import_try root cwd filepath m of
        Inl e \<Rightarrow>
          (full_match m,
           [''Error processing import '' @ group3 m @ '' in '' @ filepath @ '': '' @ error_str e])
      | Inr (Some r) \<Rightarrow> (r, [])
      | Inr None \<Rightarrow> (full_match m, []))"

text \<open>The two classification flags, from \<^verbatim>\<open>parts\<close>; \<^verbatim>\<open>parts[1]\<close> raises on a
  one-element list.\<close>

definition is_moved_feature_file :: "string list \<Rightarrow> bool" where
  "is_moved_feature_file parts = (hd parts = ''features'' \<and> 3 \<le> length parts)"

definition is_moved_layout_file :: "string list \<Rightarrow> py_error + bool" where
  "is_moved_layout_file parts =
     (if hd parts = ''components''
      then (if length parts < 2 then Inl (IndexError ''list index out of range'')
            else Inr (parts ! 1 = ''layout'' \<or> parts ! 1 = ''common''))
      else Inr False)"

definition folders :: "string list" where
  "folders = [''lib'', ''hooks'', ''contexts'', ''assets'', ''utils'', ''types'']"

text \<open>Step 1, the loop over the folders.\<close>

definition depth_sub :: "string \<Rightarrow> string \<Rightarrow> string" where
  "depth_sub folder text = fst (re_sub (depth_pattern folder) (\<lambda>m. (''../../'' @ folder, [])) [] text)"

definition depth_correction :: "bool \<Rightarrow> string \<Rightarrow> string" where
  "depth_correction moved content =
     (if moved then foldl (\<lambda>new_content folder. depth_sub folder new_content) content folders
      else content)"

text \<open>Step 2, the two substitutions with \<^verbatim>\<open>replace_import\<close>.\<close>

definition component_imports ::
  "string \<Rightarrow> py_error + string \<Rightarrow> string \<Rightarrow> string \<Rightarrow> string \<times> string list" where
  "component_imports root cwd filepath text =
     (case re_sub import_pattern
             (\<lambda>gs. replace_import root cwd filepath (import_match_of gs)) [] text of
        (text1, out1) \<Rightarrow>
          (case re_sub dynamic_import_pattern
                  (\<lambda>gs. replace_import root cwd filepath (import_match_of gs)) [] text1 of
             (text2, out2) \<Rightarrow> (text2, out1 @ out2)))"

text \<open>
  The callback as \<^verbatim>\<open>re\<close> calls it, and the two substitutions on their own.
\<close>

abbreviation import_callback ::
  "string \<Rightarrow> py_error + string \<Rightarrow> string \<Rightarrow> string list \<Rightarrow> string \<times> string list" where
  "import_callback root cwd filepath \<equiv> (\<lambda>gs. replace_import root cwd filepath (import_match_of gs))"

abbreviation static_sub ::
  "string \<Rightarrow> py_error + string \<Rightarrow> string \<Rightarrow> string \<Rightarrow> string \<times> string list" where
  "static_sub root cwd filepath text \<equiv>
     re_sub import_pattern (import_callback root cwd filepath) [] text"

abbreviation dynamic_sub ::
  "string \<Rightarrow> py_error + string \<Rightarrow> string \<Rightarrow> string \<Rightarrow> string \<times> string list" where
  "dynamic_sub root cwd filepath text \<equiv>
     re_sub dynamic_import_pattern (import_callback root cwd filepath) [] text"

text \<open>
  What \<^verbatim>\<open>fix_imports_in_file\<close> computes between reading and writing: the new content
  and the lines printed on the way, or the exception raised outside the handler.
\<close>

definition rewrite ::
  "string \<Rightarrow> py_error + string \<Rightarrow> string \<Rightarrow> string \<Rightarrow> py_error + string \<times> string list" where
  "rewrite root cwd filepath content =
     (case relpath cwd filepath root of
        Inl e \<Rightarrow> Inl e
      | Inr rel_path_from_src \<Rightarrow>
          (let parts = split_sep CHR ''/'' rel_path_from_src
           in case is_moved_layout_file parts of
                Inl e \<Rightarrow> Inl e
              | Inr layout \<Rightarrow>
                  Inr (component_imports root cwd filepath
                         (depth_correction (is_moved_feature_file parts \<or> layout) content))))"

section \<open>Files, standard output and \<^verbatim>\<open>main\<close>\<close>

text \<open>
  The file system as far as the script touches it. A file has the characters that
  decoding its bytes gives, or the message of the \<^verbatim>\<open>UnicodeDecodeError\<close> when they do
  not decode, and may be unreadable or unwritable; a path with no file raises on reading.
  The world is the file system and the lines printed so far.
\<close>

record file_node =
  readable :: bool
  writable :: bool
  undecodable :: "string option"
  contents :: string

record world =
  fs :: "string \<rightharpoonup> file_node"
  stdout :: "string list"

definition print :: "string \<Rightarrow> world \<Rightarrow> world" where
  "print line w = w\<lparr>stdout := stdout w @ [line]\<rparr>"

text \<open>
  Reading in text mode translates \<^verbatim>\<open>\r\n\<close> and a lone \<^verbatim>\<open>\r\<close> to \<^verbatim>\<open>\n\<close>; writing on a
  POSIX host translates nothing.
\<close>

fun universal_newlines :: "string \<Rightarrow> string" where
  "universal_newlines [] = []"
| "universal_newlines (c # cs) =
     (if c = CHR 0x0D
      then (case cs of
              d # ds \<Rightarrow> if d = CHR 0x0A then CHR 0x0A # universal_newlines ds
                        else CHR 0x0A # universal_newlines cs
            | [] \<Rightarrow> [CHR 0x0A])
      else c # universal_newlines cs)"

text \<open>\<^verbatim>\<open>with open(filepath, 'r') as f: content = f.read()\<close>\<close>

definition read_file :: "world \<Rightarrow> string \<Rightarrow> py_error + string" where
  "read_file w path =
     (case fs w path of
        None \<Rightarrow> Inl (FileNotFoundError (Some path))
      | Some f \<Rightarrow>
          if \<not> readable f then Inl (PermissionError (Some path))
          else (case undecodable f of
                  Some msg \<Rightarrow> Inl (UnicodeDecodeError msg)
                | None \<Rightarrow> Inr (universal_newlines (contents f))))"

text \<open>\<^verbatim>\<open>with open(filepath, 'w') as f: f.write(new_content)\<close>\<close>

definition write_file :: "string \<Rightarrow> string \<Rightarrow> world \<Rightarrow> py_error + world" where
  "write_file path text w =
     (case fs w path of
        None \<Rightarrow>
          Inr (w\<lparr>fs := (fs w)(path \<mapsto>
                 \<lparr>readable = True, writable = True, undecodable = None, contents = text\<rparr>)\<rparr>)
      | Some f \<Rightarrow>
          if writable f
          then Inr (w\<lparr>fs := (fs w)(path \<mapsto> f\<lparr>undecodable := None, contents := text\<rparr>)\<rparr>)
          else Inl (PermissionError (Some path)))"

text \<open>
  \<^verbatim>\<open>fix_imports_in_file(filepath)\<close>: the exception that leaves the function, if any,
  and the world at that moment.
\<close>

definition fix_imports_in_file ::
  "string \<Rightarrow> py_error + string \<Rightarrow> string \<Rightarrow> world \<Rightarrow> py_error option \<times> world" where
  "fix_imports_in_file root cwd filepath w =
     (case read_file w filepath of
        Inl e \<Rightarrow> (Some e, w)
      | Inr text \<Rightarrow>
          (case rewrite root cwd filepath text of
             Inl e \<Rightarrow> (Some e, w)
           | Inr (new_content, out) \<Rightarrow>
               (let w1 = w\<lparr>stdout := stdout w @ out\<rparr>
                in if new_content \<noteq> text
                   then (let w2 = print (''Updating '' @ filepath) w1
                         in case write_file filepath new_content w2 of
                              Inl e \<Rightarrow> (Some e, w2)
                            | Inr w3 \<Rightarrow> (None, w3))
                   else (None, w1))))"

text \<open>
  The loops of \<^verbatim>\<open>main\<close>. The directory walk is given: \<open>walk\<close> is what
  \<^verbatim>\<open>os.walk(SRC_ROOT)\<close> yields, a list of \<^verbatim>\<open>(root, dirs, files)\<close>. An exception that
  leaves \<^verbatim>\<open>fix_imports_in_file\<close> is not handled anywhere in \<^verbatim>\<open>main\<close>.
\<close>

fun main_files ::
  "string \<Rightarrow> py_error + string \<Rightarrow> string \<Rightarrow> string list \<Rightarrow> world \<Rightarrow> py_error option \<times> world" where
  "main_files root cwd dir [] w = (None, w)"
| "main_files root cwd dir (file # files) w =
     (if endswith file ''.tsx'' \<or> endswith file ''.ts''
      then (case fix_imports_in_file root cwd (join dir file) w of
              (Some e, w') \<Rightarrow> (Some e, w')
            | (None, w') \<Rightarrow> main_files root cwd dir files w')
      else main_files root cwd dir files w)"

fun main_walk ::
  "string \<Rightarrow> py_error + string \<Rightarrow> (string \<times> string list \<times> string list) list \<Rightarrow> world
     \<Rightarrow> py_error option \<times> world" where
  "main_walk root cwd [] w = (None, w)"
| "main_walk root cwd ((dir, dirs, files) # rest) w =
     (case main_files root cwd dir files w of
        (Some e, w') \<Rightarrow> (Some e, w')
      | (None, w') \<Rightarrow> main_walk root cwd rest w')"

definition main ::
  "string \<Rightarrow> py_error + string \<Rightarrow> (string \<times> string list \<times> string list) list \<Rightarrow> world
     \<Rightarrow> py_error option \<times> world" where
  "main root cwd walk w =
     (case main_walk root cwd walk (print ''Starting import fix...'' w) of
        (Some e, w') \<Rightarrow> (Some e, w')
      | (None, w') \<Rightarrow> (None, print ''Done.'' w'))"

text \<open>
  A small tree for the examples: \<^verbatim>\<open>a.ts\<close> cannot be read, \<^verbatim>\<open>b.tsx\<close> holds one dynamic
  import of a relocated component.
\<close>

abbreviation two_file_tree :: world where
  "two_file_tree \<equiv>
     \<lparr>fs = [''/repo/src/a.ts'' \<mapsto>
               \<lparr>readable = False, writable = True, undecodable = None, contents = ''export {}''\<rparr>,
             ''/repo/src/b.tsx'' \<mapsto>
               \<lparr>readable = True, writable = True, undecodable = None,
                contents = ''import(\"./Sidebar\")''\<rparr>],
      stdout = []\<rparr>"

section \<open>\<^verbatim>\<open>replace_import\<close> without its secondary branch\<close>

text \<open>
  The same function with the \<^verbatim>\<open>if "components/" in path_str\<close> branch deleted, for the
  comparison with \<open>replace_import\<close>.
\<close>

definition replace_import_try_no_fallback ::
  "string \<Rightarrow> py_error + string \<Rightarrow> string \<Rightarrow> import_match \<Rightarrow> py_error + string option" where
  "replace_import_try_no_fallback root cwd filepath m =
     (let quote = group2 m; path_str = group3 m; current_dir = dirname filepath
      in if \<not> startswith path_str ''.'' then Inr (Some (full_match m))
         else if endswith path_str ''.css''
         then (if str_contains ''VideoDiagnostics.module.css'' path_str
                  \<and> str_contains ''VideoDiagnostics'' filepath
               then Inr (Some (full_match m))
               else Inr (Some (full_match m)))
         else
           (let basename0 = basename path_str;
                basename1 = (if endswith basename0 ''.tsx'' \<or> endswith basename0 ''.ts''
                             then fst (splitext basename0) else basename0)
            in case MAPPING basename1 of
                 Some target \<Rightarrow>
                   (case get_relative_path root cwd filepath target of
                      Inl e \<Rightarrow> Inl e
                    | Inr new_rel \<Rightarrow> Inr (Some (group1 m @ quote @ new_rel @ quote @ group4 m)))
               | None \<Rightarrow> Inr None))"

definition replace_import_no_fallback ::
  "string \<Rightarrow> py_error + string \<Rightarrow> string \<Rightarrow> import_match \<Rightarrow> string \<times> string list" where
  "replace_import_no_fallback root cwd filepath m =
     (case replace_import_try_no_fallback root cwd filepath m of
        Inl e \<Rightarrow>
          (full_match m,
           [''Error processing import '' @ group3 m @ '' in '' @ filepath @ '': '' @ error_str e])
      | Inr (Some r) \<Rightarrow> (r, [])
      | Inr None \<Rightarrow> (full_match m, []))"

section \<open>Paths: splitting, normalising, the source root\<close>

lemma split_sep_not_Nil: "split_sep sep s \<noteq> []"
  by (induction s) (auto split: list.splits)

lemma split_sep_no_sep: "sep \<notin> set s \<Longrightarrow> split_sep sep s = [s]"
  by (induction s) auto


lemma split_sep_append_sep: "split_sep sep (a @ sep # b) = split_sep sep a @ split_sep sep b"
proof (induction a)
  case Nil
  show ?case by simp
next
  case (Cons c a)
  show ?case
  proof (cases "c = sep")
    case True
    with Cons show ?thesis by simp
  next
    case False
    obtain x xs where sa: "split_sep sep a = x # xs"
      using split_sep_not_Nil [of sep a] by (cases "split_sep sep a") auto
    with Cons False show ?thesis by simp
  qed
qed

lemma split_sep_elems: "x \<in> set (split_sep sep s) \<Longrightarrow> sep \<notin> set x"
proof (induction s arbitrary: x)
  case Nil
  then show ?case by simp
next
  case (Cons c s)
  obtain y ys where sa: "split_sep sep s = y # ys"
    using split_sep_not_Nil [of sep s] by (cases "split_sep sep s") auto
  show ?case
  proof (cases "c = sep")
    case True
    with Cons show ?thesis by auto
  next
    case False
    with Cons sa show ?thesis by auto
  qed
qed

lemma norm_comps_append:
  "norm_comps ini (xs @ ys) new = norm_comps ini ys (norm_comps ini xs new)"
  by (induction xs arbitrary: new) auto

lemma norm_comps_plain:
  "\<forall>x\<in>set xs. x \<noteq> [] \<and> x \<noteq> ''.'' \<and> x \<noteq> ''..'' \<Longrightarrow> norm_comps ini xs new = new @ xs"
  by (induction xs arbitrary: new) auto

lemma norm_comps_filter:
  "norm_comps ini (filter (\<lambda>x. x \<noteq> []) xs) new = norm_comps ini xs new"
  by (induction xs arbitrary: new) auto

lemma norm_comps_abs_plain:
  "\<forall>x\<in>set new. x \<noteq> [] \<and> x \<noteq> ''.'' \<and> x \<noteq> ''..'' \<and> CHR ''/'' \<notin> set x \<Longrightarrow>
   \<forall>x\<in>set xs. CHR ''/'' \<notin> set x \<Longrightarrow>
   \<forall>x\<in>set (norm_comps True xs new). x \<noteq> [] \<and> x \<noteq> ''.'' \<and> x \<noteq> ''..'' \<and> CHR ''/'' \<notin> set x"
proof (induction xs arbitrary: new)
  case Nil
  then show ?case by simp
next
  case (Cons c xs)
  let ?P = "\<lambda>x. x \<noteq> [] \<and> x \<noteq> ''.'' \<and> x \<noteq> ''..'' \<and> CHR ''/'' \<notin> set x"
  have xs: "\<forall>x\<in>set xs. CHR ''/'' \<notin> set x" and c: "CHR ''/'' \<notin> set c"
    using Cons.prems(2) by simp_all
  have bl: "\<forall>x\<in>set (butlast new). ?P x"
    using Cons.prems(1) by (meson in_set_butlastD)
  have nl: "new \<noteq> [] \<Longrightarrow> last new \<noteq> ''..''"
    using Cons.prems(1) last_in_set by blast
  consider (skip) "c = [] \<or> c = ''.''" | (up) "c = ''..''" | (plain) "c \<noteq> [] \<and> c \<noteq> ''.'' \<and> c \<noteq> ''..''"
    by blast
  then show ?case
  proof cases
    case skip
    then have "norm_comps True (c # xs) new = norm_comps True xs new" by auto
    with Cons.IH [OF Cons.prems(1) xs] show ?thesis by simp
  next
    case up
    show ?thesis
    proof (cases "new = []")
      case True
      with up have "norm_comps True (c # xs) new = norm_comps True xs new" by simp
      with Cons.IH [OF Cons.prems(1) xs] show ?thesis by simp
    next
      case False
      with up nl have "norm_comps True (c # xs) new = norm_comps True xs (butlast new)" by simp
      with Cons.IH [OF bl xs] show ?thesis by simp
    qed
  next
    case plain
    then have eq: "norm_comps True (c # xs) new = norm_comps True xs (new @ [c])" by simp
    from plain c Cons.prems(1) have "\<forall>x\<in>set (new @ [c]). ?P x" by simp
    from Cons.IH [OF this xs] eq show ?thesis by simp
  qed
qed

lemma split_join_sep:
  "xs \<noteq> [] \<Longrightarrow> \<forall>x\<in>set xs. sep \<notin> set x \<Longrightarrow> split_sep sep (join_sep sep xs) = xs"
proof (induction sep xs rule: join_sep.induct)
  case (1 sep)
  then show ?case by simp
next
  case (2 sep x)
  then show ?case by (simp add: split_sep_no_sep)
next
  case (3 sep x y ys)
  then show ?case by (simp add: split_sep_append_sep split_sep_no_sep)
qed

lemma path_segments_slash [simp]: "path_segments (CHR ''/'' # s) = path_segments s"
  by (simp add: path_segments_def)

lemma path_segments_join:
  "\<forall>x\<in>set xs. x \<noteq> [] \<and> CHR ''/'' \<notin> set x \<Longrightarrow>
   path_segments (replicate n CHR ''/'' @ join_sep CHR ''/'' xs) = xs"
proof (induction n)
  case 0
  show ?case
  proof (cases "xs = []")
    case True
    then show ?thesis by (simp add: path_segments_def)
  next
    case False
    with 0 have "split_sep CHR ''/'' (join_sep CHR ''/'' xs) = xs"
      by (simp add: split_join_sep)
    with 0 show ?thesis by (simp add: path_segments_def filter_id_conv)
  qed
next
  case (Suc n)
  then show ?case by simp
qed

lemma isabs_Cons: "isabs p \<longleftrightarrow> (\<exists>q. p = CHR ''/'' # q)"
  by (cases p) (auto simp: isabs_def startswith_def)

lemma initial_slashes_abs: "isabs p \<Longrightarrow> initial_slashes p = 1 \<or> initial_slashes p = 2"
  by (auto simp: initial_slashes_def isabs_def)

lemma normpath_abs:
  assumes "isabs p"
  shows "normpath p = replicate (initial_slashes p) CHR ''/'' @ join_sep CHR ''/'' (norm_comps True (split_sep CHR ''/'' p) [])"
proof -
  from assms have ne: "p \<noteq> []" by (auto simp: isabs_Cons)
  from assms have n: "initial_slashes p = 1 \<or> initial_slashes p = 2" by (rule initial_slashes_abs)
  then have "replicate (initial_slashes p) CHR ''/'' \<noteq> []" by auto
  with ne n show ?thesis by (auto simp: normpath_def Let_def)
qed

lemma normpath_isabs: "isabs p \<Longrightarrow> isabs (normpath p)"
  using initial_slashes_abs [of p] by (auto simp: normpath_abs isabs_Cons numeral_2_eq_2)

lemma norm_abs_plain:
  "\<forall>x\<in>set (norm_comps True (split_sep CHR ''/'' p) []). x \<noteq> [] \<and> x \<noteq> ''.'' \<and> x \<noteq> ''..'' \<and> CHR ''/'' \<notin> set x"
proof (rule norm_comps_abs_plain)
  show "\<forall>x\<in>set []. x \<noteq> [] \<and> x \<noteq> ''.'' \<and> x \<noteq> ''..'' \<and> CHR ''/'' \<notin> set x" by simp
  show "\<forall>x\<in>set (split_sep CHR ''/'' p). CHR ''/'' \<notin> set x"
    using split_sep_elems by blast
qed

lemma path_segments_normpath:
  assumes "isabs p"
  shows "path_segments (normpath p) = norm_comps True (split_sep CHR ''/'' p) []"
proof -
  have "\<forall>x\<in>set (norm_comps True (split_sep CHR ''/'' p) []). x \<noteq> [] \<and> CHR ''/'' \<notin> set x"
    using norm_abs_plain [of p] by blast
  from path_segments_join [OF this] normpath_abs [OF assms] show ?thesis
    by (simp only:)
qed

lemma norm_comps_normpath:
  assumes "isabs p"
  shows "norm_comps True (split_sep CHR ''/'' (normpath p)) [] = norm_comps True (split_sep CHR ''/'' p) []"
proof -
  have "\<forall>x\<in>set (norm_comps True (split_sep CHR ''/'' p) []). x \<noteq> [] \<and> x \<noteq> ''.'' \<and> x \<noteq> ''..''"
    using norm_abs_plain [of p] by blast
  from norm_comps_plain [OF this, of True "[]"]
  have idem: "norm_comps True (norm_comps True (split_sep CHR ''/'' p) []) [] = norm_comps True (split_sep CHR ''/'' p) []"
    by simp
  have "norm_comps True (split_sep CHR ''/'' (normpath p)) [] = norm_comps True (path_segments (normpath p)) []"
    unfolding path_segments_def by (rule norm_comps_filter [symmetric])
  also have "\<dots> = norm_comps True (norm_comps True (split_sep CHR ''/'' p) []) []"
    using assms by (simp only: path_segments_normpath)
  also note idem
  finally show ?thesis .
qed

lemma commonprefix_append: "commonprefix (xs @ ys) (xs @ zs) = xs @ commonprefix ys zs"
  by (induction xs) auto


lemma endswith_single: "endswith s [c] \<longleftrightarrow> s \<noteq> [] \<and> last s = c"
proof (cases s rule: rev_cases)
  case Nil
  then show ?thesis by (simp add: endswith_def)
next
  case (snoc ys y)
  then show ?thesis by (auto simp: endswith_def)
qed

lemma join_sep_snoc:
  "join_sep sep (xs @ [x]) = (if xs = [] then x else join_sep sep xs @ sep # x)"
  by (induction sep xs rule: join_sep.induct) auto

lemma rfind_end_file:
  assumes "c \<notin> set b"
  shows "rfind_end c (a @ c # b) = Suc (length a)"
proof -
  have "takeWhile (\<lambda>d. d \<noteq> c) (rev b @ c # rev a)
          = rev b @ takeWhile (\<lambda>d. d \<noteq> c) (c # rev a)"
    by (rule takeWhile_append2) (use assms in auto)
  then have "takeWhile (\<lambda>d. d \<noteq> c) (rev b @ c # rev a) = rev b"
    by simp
  then show ?thesis by (simp add: rfind_end_def)
qed

lemma rfind_end_none:
  assumes "c \<notin> set b"
  shows "rfind_end c b = 0"
proof -
  have tw: "takeWhile (\<lambda>d. d \<noteq> c) (rev b) = rev b"
    by (rule takeWhile_eq_all_conv [THEN iffD2]) (use assms in auto)
  show ?thesis unfolding rfind_end_def tw by simp
qed

lemma rstrip_keep: "s \<noteq> [] \<Longrightarrow> last s \<noteq> c \<Longrightarrow> rstrip c s = s"
  by (cases s rule: rev_cases) (auto simp: rstrip_def)

lemma dirname_file:
  assumes b: "CHR ''/'' \<notin> set b" and a: "a \<noteq> []" "last a \<noteq> CHR ''/''"
  shows "dirname (a @ CHR ''/'' # b) = a"
proof -
  have head: "take (rfind_end CHR ''/'' (a @ CHR ''/'' # b)) (a @ CHR ''/'' # b) = a @ ''/''"
    using b by (simp add: rfind_end_file)
  have "\<exists>x\<in>set a. x \<noteq> CHR ''/''" using a last_in_set by blast
  moreover have "set (replicate k CHR ''/'') \<subseteq> {CHR ''/''}" for k by auto
  ultimately have ne: "a @ ''/'' \<noteq> replicate (length (a @ ''/'')) CHR ''/''"
    by (metis Un_iff set_append singletonD subsetD)
  have "rstrip CHR ''/'' (a @ ''/'') = rstrip CHR ''/'' a"
    by (simp add: rstrip_def)
  with a have "rstrip CHR ''/'' (a @ ''/'') = a" by (simp add: rstrip_keep)
  with head ne show ?thesis
    unfolding dirname_def Let_def by (simp del: replicate.simps replicate_Suc)
qed

lemma join_src:
  assumes "isabs cwd0"
  shows "\<exists>xs. split_sep CHR ''/'' (join cwd0 ''src'') = xs @ [''src''] \<and> isabs (join cwd0 ''src'')"
proof (cases "endswith cwd0 ''/''")
  case True
  then have "cwd0 \<noteq> []" "last cwd0 = CHR ''/''" by (simp_all add: endswith_single)
  then obtain a where a: "cwd0 = a @ ''/''" by (metis append_butlast_last_id)
  have j: "join cwd0 ''src'' = a @ CHR ''/'' # ''src''"
    using True a by (simp add: join_def startswith_def)
  have "split_sep CHR ''/'' (join cwd0 ''src'') = split_sep CHR ''/'' a @ [''src'']"
    unfolding j split_sep_append_sep by simp
  moreover have "isabs (a @ CHR ''/'' # ''src'')"
    using assms unfolding a by (cases a) (auto simp: isabs_Cons)
  then have "isabs (join cwd0 ''src'')" unfolding j .
  ultimately show ?thesis by blast
next
  case False
  from assms have "cwd0 \<noteq> []" by (auto simp: isabs_Cons)
  with False have j: "join cwd0 ''src'' = cwd0 @ CHR ''/'' # ''src''"
    by (simp add: join_def startswith_def)
  have "split_sep CHR ''/'' (join cwd0 ''src'') = split_sep CHR ''/'' cwd0 @ [''src'']"
    unfolding j split_sep_append_sep by simp
  moreover have "isabs (join cwd0 ''src'')"
    using assms unfolding j by (auto simp: isabs_Cons)
  ultimately show ?thesis by blast
qed

text \<open>What the proofs need to know of the source root.\<close>

lemma SRC_ROOT_shape:
  assumes "isabs cwd0"
  shows "isabs (SRC_ROOT cwd0) \<and> SRC_ROOT cwd0 \<noteq> [] \<and> last (SRC_ROOT cwd0) \<noteq> CHR ''/'' \<and>
         (\<forall>x\<in>set (norm_comps True (split_sep CHR ''/'' (SRC_ROOT cwd0)) []). x \<noteq> [] \<and> x \<noteq> ''.'' \<and> x \<noteq> ''..'' \<and> CHR ''/'' \<notin> set x)"
proof -
  let ?J = "join cwd0 ''src''"
  from join_src [OF assms] obtain xs where xs: "split_sep CHR ''/'' ?J = xs @ [''src'']" and abs: "isabs ?J"
    by blast
  have R: "norm_comps True (split_sep CHR ''/'' ?J) [] = norm_comps True xs [] @ [''src'']"
    unfolding xs norm_comps_append by simp
  have S: "SRC_ROOT cwd0 = replicate (initial_slashes ?J) CHR ''/'' @ join_sep CHR ''/'' (norm_comps True xs [] @ [''src''])"
    unfolding SRC_ROOT_def normpath_abs [OF abs] R ..
  have "last (SRC_ROOT cwd0) = CHR ''c''"
    unfolding S join_sep_snoc by simp
  then have l: "last (SRC_ROOT cwd0) \<noteq> CHR ''/''" by simp
  have ne: "SRC_ROOT cwd0 \<noteq> []"
    unfolding S join_sep_snoc by simp
  have "isabs (SRC_ROOT cwd0)"
    unfolding SRC_ROOT_def using abs by (rule normpath_isabs)
  moreover have "norm_comps True (split_sep CHR ''/'' (SRC_ROOT cwd0)) [] = norm_comps True (split_sep CHR ''/'' ?J) []"
    unfolding SRC_ROOT_def using abs by (rule norm_comps_normpath)
  ultimately show ?thesis using l ne norm_abs_plain [of ?J] by simp
qed

lemma isabs_append: "isabs s \<Longrightarrow> isabs (s @ t)"
  by (auto simp: isabs_Cons)

lemma segments_under:
  assumes "isabs s" and "\<forall>x\<in>set ws. x \<noteq> [] \<and> x \<noteq> ''.'' \<and> x \<noteq> ''..''"
    and "split_sep CHR ''/'' t = ws"
  shows "path_segments (normpath (s @ CHR ''/'' # t)) = norm_comps True (split_sep CHR ''/'' s) [] @ ws"
proof -
  have "path_segments (normpath (s @ CHR ''/'' # t)) = norm_comps True (split_sep CHR ''/'' (s @ CHR ''/'' # t)) []"
    using assms(1) by (intro path_segments_normpath isabs_append)
  also have "\<dots> = norm_comps True ws (norm_comps True (split_sep CHR ''/'' s) [])"
    unfolding split_sep_append_sep norm_comps_append assms(3) ..
  also have "\<dots> = norm_comps True (split_sep CHR ''/'' s) [] @ ws"
    using assms(2) by (rule norm_comps_plain)
  finally show ?thesis .
qed

lemma SRC_ROOT_repo: "SRC_ROOT ''/repo'' = ''/repo/src''"
  by code_simp

section \<open>The patterns never match the empty string\<close>

text \<open>
  Each of the three patterns starts with a literal, so a match consumes at least that
  literal and the scan of \<open>re_sub\<close> always moves on behind a match.
\<close>

lemma re_atoms_Lit_first:
  assumes "re_atoms (Lit l # as) s = Some parts"
  shows "\<exists>r. parts = l # r"
  using assms by (auto split: if_splits)

lemma regroup_first_nonempty:
  assumes "l \<noteq> []"
  shows "concat (regroup (Suc n # ns) (l # r)) \<noteq> []"
  using assms by simp

lemma import_pattern_match_nonempty:
  assumes "re_match import_pattern prev s = Some gs"
  shows "concat gs \<noteq> []"
proof -
  from assms obtain parts where p: "re_atoms (atoms import_pattern) s = Some parts"
    and gs: "gs = regroup (group_sizes import_pattern) parts"
    by (auto simp: re_match_def split: if_splits)
  from p obtain r where "parts = ''import'' # r"
    unfolding import_pattern_def regex.select_convs by (blast dest: re_atoms_Lit_first)
  with gs show ?thesis
    by (simp add: import_pattern_def numeral_eq_Suc)
qed

lemma dynamic_import_pattern_match_nonempty:
  assumes "re_match dynamic_import_pattern prev s = Some gs"
  shows "concat gs \<noteq> []"
proof -
  from assms obtain parts where p: "re_atoms (atoms dynamic_import_pattern) s = Some parts"
    and gs: "gs = regroup (group_sizes dynamic_import_pattern) parts"
    by (auto simp: re_match_def split: if_splits)
  from p obtain r where "parts = ''import('' # r"
    unfolding dynamic_import_pattern_def regex.select_convs by (blast dest: re_atoms_Lit_first)
  with gs show ?thesis
    by (simp add: dynamic_import_pattern_def)
qed

lemma depth_pattern_match_nonempty:
  assumes "re_match (depth_pattern folder) prev s = Some gs"
  shows "concat gs \<noteq> []"
proof -
  from assms obtain parts where p: "re_atoms (atoms (depth_pattern folder)) s = Some parts"
    and gs: "gs = regroup (group_sizes (depth_pattern folder)) parts"
    by (auto simp: re_match_def split: if_splits)
  from p obtain r where "parts = (''../'' @ folder) # r"
    unfolding depth_pattern_def regex.select_convs by (blast dest: re_atoms_Lit_first)
  with gs show ?thesis
    by (simp add: depth_pattern_def)
qed

section \<open>A substitution, match by match\<close>

text \<open>
  \<open>re_sub\<close> is \<open>re_scan\<close> with the callback applied to each match on its own: what the
  callback returns for one match has no influence on which other matches are found or
  on what is made of them. For the two import patterns every match has four groups, and
  the segments of the scan, put together, are the text.
\<close>

lemma re_sub_scan:
  "re_sub rx repl prev s = (segs_text repl (re_scan rx prev s), segs_out repl (re_scan rx prev s))"
proof (induction rx repl prev s rule: re_sub.induct)
  case (1 rx repl prev)
  show ?case by (simp add: segs_text_def segs_out_def split: option.split)
next
  case (2 rx repl prev c cs)
  show ?case
  proof (cases "re_match rx prev (c # cs)")
    case None
    with "2.IH"(1) show ?thesis by (simp add: segs_text_def segs_out_def)
  next
    case (Some m)
    obtain t out1 where r: "repl m = (t, out1)" by (cases "repl m")
    show ?thesis
    proof (cases "length (concat m) = 0")
      case True
      from True have z: "(length (concat m) = 0) = True" by simp
      from "2.IH"(2) [OF Some r [symmetric] True] Some r show ?thesis
        by (simp add: segs_text_def segs_out_def z del: length_0_conv concat_eq_Nil_conv)
    next
      case False
      from False have nz: "(length (concat m) = 0) = False" by simp
      from "2.IH"(3) [OF Some r [symmetric] False] Some r show ?thesis
        by (simp add: segs_text_def segs_out_def nz del: length_0_conv concat_eq_Nil_conv)
    qed
  qed
qed

lemma re_sub_at:
  assumes "re_scan rx prev s = before @ Found gs # after"
  shows "re_sub rx repl prev s =
           (segs_text repl before @ fst (repl gs) @ segs_text repl after,
            segs_out repl before @ snd (repl gs) @ segs_out repl after)"
  unfolding re_sub_scan assms by (simp add: segs_text_def segs_out_def)

lemma re_atoms_consumes:
  "re_atoms as s = Some parts \<Longrightarrow> length parts = length as \<and> (\<exists>rest. s = concat parts @ rest)"
proof (induction as s arbitrary: parts rule: re_atoms.induct)
  case (2 l as s)
  from "2.prems" have sw: "startswith s l"
    and "\<exists>r. re_atoms as (drop (length l) s) = Some r \<and> parts = l # r"
    by (auto split: if_splits)
  then obtain r where r: "re_atoms as (drop (length l) s) = Some r" and p: "parts = l # r" by blast
  from "2.IH" [OF sw r] obtain rest where "length r = length as" "drop (length l) s = concat r @ rest"
    by blast
  moreover from sw have "s = l @ drop (length l) s"
    by (metis append_take_drop_id startswith_def)
  ultimately show ?case using p by (metis append.assoc concat.simps(2) length_Cons)
next
  case (6 P as c cs)
  from "6.prems" have P: "P c" by (simp split: if_splits)
  show ?case
  proof (cases "re_atoms (Plus P # as) cs")
    case None
    with "6.prems" P obtain r where r: "re_atoms as cs = Some r" and p: "parts = [c] # r" by auto
    from "6.IH"(2) [OF P _ r] None show ?thesis using p by auto
  next
    case (Some q)
    show ?thesis
    proof (cases q)
      case Nil
      with Some "6.prems" P obtain r where r: "re_atoms as cs = Some r" and p: "parts = [c] # r" by auto
      from "6.IH"(3) [OF P _ _ r] Some Nil show ?thesis using p by auto
    next
      case (Cons g r)
      with Some "6.prems" P have p: "parts = (c # g) # r" by simp
      from "6.IH"(1) [OF P Some] Cons show ?thesis using p by auto
    qed
  qed
next
  case (8 P as c cs)
  show ?case
  proof (cases "re_atoms as (c # cs)")
    case (Some r)
    with "8.prems" have p: "parts = [] # r" by simp
    from "8.IH"(1) [OF Some] show ?thesis using p by auto
  next
    case None
    with "8.prems" have P: "P c" by (simp split: if_splits)
    from None "8.prems" P obtain g r where q: "re_atoms (LazyStar P # as) cs = Some (g # r)"
      and p: "parts = (c # g) # r"
      by (auto split: option.splits list.splits)
    from "8.IH"(2) [OF None P q] show ?thesis using p by auto
  qed
next
  case (10 P as c cs)
  show ?case
  proof (cases "P c")
    case True
    show ?thesis
    proof (cases "re_atoms as cs")
      case (Some r)
      with "10.prems" True have p: "parts = [c] # r" by simp
      from "10.IH"(1) [OF True Some] show ?thesis using p by auto
    next
      case None
      with "10.prems" True obtain r where r: "re_atoms as (c # cs) = Some r" and p: "parts = [] # r"
        by auto
      from "10.IH"(2) [OF True None r] show ?thesis using p by auto
    qed
  next
    case False
    with "10.prems" obtain r where r: "re_atoms as (c # cs) = Some r" and p: "parts = [] # r"
      by auto
    from "10.IH"(3) [OF False r] show ?thesis using p by auto
  qed
qed (auto split: if_splits)


lemma length_regroup: "length (regroup ns parts) = length ns"
  by (induction ns arbitrary: parts) auto

lemma concat_regroup: "concat (regroup ns parts) = concat (take (sum_list ns) parts)"
  by (induction ns arbitrary: parts) (auto simp: take_add)

lemma import_match_shape:
  assumes "rx = import_pattern \<or> rx = dynamic_import_pattern"
    and "re_match rx prev s = Some gs"
  shows "length gs = 4 \<and> (\<exists>rest. s = concat gs @ rest)"
proof -
  from assms obtain parts where p: "re_atoms (atoms rx) s = Some parts"
    and gs: "gs = regroup (group_sizes rx) parts"
    by (auto simp: re_match_def split: if_splits)
  from re_atoms_consumes [OF p] obtain rest where
    l: "length parts = length (atoms rx)" and s: "s = concat parts @ rest" by blast
  from assms(1) have "length (group_sizes rx) = 4" and "sum_list (group_sizes rx) = length (atoms rx)"
    by (auto simp: import_pattern_def dynamic_import_pattern_def)
  with gs l have "length gs = 4" and "concat gs = concat parts"
    by (simp_all add: length_regroup concat_regroup)
  with s show ?thesis by auto
qed

lemma re_scan_Found:
  "Found gs \<in> set (re_scan rx prev s) \<Longrightarrow> \<exists>prev' s'. re_match rx prev' s' = Some gs"
proof (induction rx prev s rule: re_scan.induct)
  case (1 rx prev)
  then show ?case by (auto split: option.splits)
next
  case (2 rx prev c cs)
  show ?case
  proof (cases "re_match rx prev (c # cs)")
    case None
    with "2.prems" "2.IH"(1) show ?thesis by auto
  next
    case (Some m)
    show ?thesis
    proof (cases "length (concat m) = 0")
      case True
      from True have z: "(length (concat m) = 0) = True" by simp
      from "2.prems" Some have "gs = m \<or> Found gs \<in> set (re_scan rx (prev @ [c]) cs)"
        by (simp add: z del: length_0_conv concat_eq_Nil_conv)
      with "2.IH"(2) [OF Some True] Some show ?thesis by blast
    next
      case False
      from False have nz: "(length (concat m) = 0) = False" by simp
      from "2.prems" Some have "gs = m \<or>
          Found gs \<in> set (re_scan rx (prev @ take (length (concat m)) (c # cs))
                            (drop (length (concat m)) (c # cs)))"
        by (simp add: nz del: length_0_conv concat_eq_Nil_conv)
      with "2.IH"(3) [OF Some False] Some show ?thesis by blast
    qed
  qed
qed

lemma re_scan_source:
  assumes "\<forall>prev s m. re_match rx prev s = Some m \<longrightarrow> (\<exists>rest. s = concat m @ rest)"
  shows "segs_source (re_scan rx prev s) = s"
  using assms
proof (induction rx prev s rule: re_scan.induct)
  case (1 rx prev)
  show ?case
  proof (cases "re_match rx prev []")
    case None
    then show ?thesis by (simp add: segs_source_def)
  next
    case (Some g)
    with "1.prems" have "concat g = []" by fastforce
    with Some show ?thesis by (simp add: segs_source_def del: concat_eq_Nil_conv)
  qed
next
  case (2 rx prev c cs)
  show ?case
  proof (cases "re_match rx prev (c # cs)")
    case None
    with "2.IH"(1) "2.prems" show ?thesis by (simp add: segs_source_def)
  next
    case (Some g)
    with "2.prems" obtain rest where rest: "c # cs = concat g @ rest" by blast
    show ?thesis
    proof (cases "length (concat g) = 0")
      case True
      from True have z: "(length (concat g) = 0) = True" and e: "concat g = []" by simp_all
      from "2.IH"(2) [OF Some True "2.prems"] Some show ?thesis
        by (simp add: segs_source_def z e del: length_0_conv concat_eq_Nil_conv)
    next
      case False
      from False have nz: "(length (concat g) = 0) = False" by simp
      have step: "re_scan rx prev (c # cs) =
          Found g # re_scan rx (prev @ take (length (concat g)) (c # cs))
                      (drop (length (concat g)) (c # cs))"
        using Some by (simp add: nz del: length_0_conv concat_eq_Nil_conv)
      have "take (length (concat g)) (c # cs) = concat g" unfolding rest by simp
      then have whole: "concat g @ drop (length (concat g)) (c # cs) = c # cs"
        by (metis append_take_drop_id)
      from "2.IH"(3) [OF Some False "2.prems"]
      have "segs_source (re_scan rx prev (c # cs)) = concat g @ drop (length (concat g)) (c # cs)"
        unfolding step by (simp add: segs_source_def)
      with whole show ?thesis by simp
    qed
  qed
qed

lemma full_match_groups:
  assumes "length gs = 4"
  shows "full_match (import_match_of gs) = concat gs"
proof -
  from assms obtain a b c d where "gs = [a, b, c, d]"
    by (auto simp: numeral_eq_Suc length_Suc_conv)
  then show ?thesis by (simp add: full_match_def import_match_of_def)
qed

lemma component_imports_passes:
  "component_imports root cwd filepath text =
     (fst (dynamic_sub root cwd filepath (fst (static_sub root cwd filepath text))),
      snd (static_sub root cwd filepath text)
        @ snd (dynamic_sub root cwd filepath (fst (static_sub root cwd filepath text))))"
  by (simp add: component_imports_def split: prod.splits)

text \<open>A statement that the callback gives back as it stands, in one substitution.\<close>

lemma sub_keeps_statement:
  assumes rx: "rx = import_pattern \<or> rx = dynamic_import_pattern"
    and scan: "re_scan rx [] s = before @ Found gs # after"
    and cb: "import_callback root cwd filepath gs = (full_match (import_match_of gs), out)"
  shows "re_sub rx (import_callback root cwd filepath) [] s =
           (segs_text (import_callback root cwd filepath) before @ concat gs
              @ segs_text (import_callback root cwd filepath) after,
            segs_out (import_callback root cwd filepath) before @ out
              @ segs_out (import_callback root cwd filepath) after) \<and>
         s = segs_source before @ concat gs @ segs_source after"
proof -
  have "Found gs \<in> set (re_scan rx [] s)" unfolding scan by simp
  then obtain prev' s' where "re_match rx prev' s' = Some gs" by (blast dest: re_scan_Found)
  with import_match_shape [OF rx] have "length gs = 4" by blast
  then have fm: "full_match (import_match_of gs) = concat gs" by (rule full_match_groups)
  have "segs_source (re_scan rx [] s) = s"
    using import_match_shape [OF rx] by (intro re_scan_source) blast
  then have src: "s = segs_source before @ concat gs @ segs_source after"
    unfolding scan by (simp add: segs_source_def)
  from re_sub_at [OF scan, of "import_callback root cwd filepath"] cb fm src
  show ?thesis by simp
qed

section \<open>The resolver\<close>

text \<open>
  C3. For the file \<^verbatim>\<open>src/features/capture/RecordingControls.tsx\<close> and the logical name
  \<^verbatim>\<open>Sidebar\<close>, which the location map sends to \<^verbatim>\<open>components/layout/Sidebar\<close>, the
  resolver returns exactly \<^verbatim>\<open>../../components/layout/Sidebar\<close>. This holds wherever the
  project lies: \<open>cwd0\<close> is any absolute working directory at load time, and the outcome
  \<open>cwd\<close> of a later \<^verbatim>\<open>os.getcwd()\<close> plays no role, since the file path is absolute.
\<close>

theorem resolver_Sidebar_example:
  assumes "isabs cwd0"
  shows "MAPPING ''Sidebar'' = Some ''components/layout/Sidebar'' \<and>
         get_relative_path (SRC_ROOT cwd0) cwd
           (SRC_ROOT cwd0 @ ''/features/capture/RecordingControls.tsx'') ''components/layout/Sidebar''
         = Inr ''../../components/layout/Sidebar''"
proof -
  let ?S = "SRC_ROOT cwd0"
  let ?R = "norm_comps True (split_sep CHR ''/'' ?S) []"
  from SRC_ROOT_shape [OF assms]
  have abs: "isabs ?S" and ne: "?S \<noteq> []" and l: "last ?S \<noteq> CHR ''/''" by simp_all
  have "dirname ((?S @ ''/features/capture'') @ CHR ''/'' # ''RecordingControls.tsx'') = ?S @ ''/features/capture''"
    by (rule dirname_file) simp_all
  then have dir: "dirname (?S @ ''/features/capture/RecordingControls.tsx'') = ?S @ ''/features/capture''"
    by simp
  have tgt: "join ?S ''components/layout/Sidebar'' = ?S @ ''/components/layout/Sidebar''"
    using ne l by (simp add: join_def startswith_def endswith_single)
  have start: "path_segments (normpath (?S @ CHR ''/'' # ''features/capture'')) = ?R @ [''features'', ''capture'']"
    by (rule segments_under [OF abs]) simp_all
  have path: "path_segments (normpath (?S @ CHR ''/'' # ''components/layout/Sidebar'')) = ?R @ [''components'', ''layout'', ''Sidebar'']"
    by (rule segments_under [OF abs]) simp_all
  have a1: "abspath cwd (?S @ ''/features/capture'') = Inr (normpath (?S @ ''/features/capture''))"
    using abs by (simp add: abspath_def isabs_append)
  have a2: "abspath cwd (?S @ ''/components/layout/Sidebar'') = Inr (normpath (?S @ ''/components/layout/Sidebar''))"
    using abs by (simp add: abspath_def isabs_append)
  have rel: "relpath cwd (?S @ ''/components/layout/Sidebar'') (?S @ ''/features/capture'')
               = Inr ''../../components/layout/Sidebar''"
    unfolding relpath_def a1 a2 using start path
    by (simp add: Let_def commonprefix_append join_list_def join_def startswith_def endswith_def
          numeral_2_eq_2)
  have key: "MAPPING ''Sidebar'' = Some ''components/layout/Sidebar''"
    by code_simp
  have "get_relative_path ?S cwd (?S @ ''/features/capture/RecordingControls.tsx'')
          ''components/layout/Sidebar'' = Inr ''../../components/layout/Sidebar''"
    unfolding get_relative_path_def Let_def dir tgt rel by (simp add: startswith_def)
  with key show ?thesis by simp
qed

theorem resolver_Sidebar_example_witness:
  "isabs ''/repo'' \<and> MAPPING ''Sidebar'' = Some ''components/layout/Sidebar'' \<and>
   get_relative_path ''/repo/src'' (Inr ''/repo'')
     ''/repo/src/features/capture/RecordingControls.tsx'' ''components/layout/Sidebar''
   = Inr ''../../components/layout/Sidebar''"
proof -
  have h: "isabs ''/repo''" by (simp add: isabs_def startswith_def)
  from resolver_Sidebar_example [OF h, of "Inr ''/repo''"] h show ?thesis
    by (simp add: SRC_ROOT_repo)
qed

text \<open>
  C9. The claim: for every file path and every target, the string returned by
  \<^verbatim>\<open>get_relative_path\<close> begins with \<^verbatim>\<open>./\<close> or \<^verbatim>\<open>../\<close>. The code only tests
  \<^verbatim>\<open>rel.startswith('.')\<close>, so a bare \<^verbatim>\<open>.\<close> or \<^verbatim>\<open>..\<close> from \<^verbatim>\<open>os.path.relpath\<close> is
  returned as it is. Evaluated here for a file inside a directory that has the name of
  the mapped component \<^verbatim>\<open>Sidebar\<close>: the results are \<^verbatim>\<open>.\<close> and \<^verbatim>\<open>..\<close>, which begin
  with neither prefix.
\<close>

theorem get_relative_path_bare_dot:
  "MAPPING ''Sidebar'' = Some ''components/layout/Sidebar'' \<and>
   get_relative_path ''/repo/src'' (Inr ''/repo'') ''/repo/src/components/layout/Sidebar/index.tsx''
     ''components/layout/Sidebar'' = Inr ''.'' \<and>
   \<not> startswith ''.'' ''./'' \<and> \<not> startswith ''.'' ''../'' \<and>
   get_relative_path ''/repo/src'' (Inr ''/repo'') ''/repo/src/components/layout/Sidebar/parts/Item.tsx''
     ''components/layout/Sidebar'' = Inr ''..'' \<and>
   \<not> startswith ''..'' ''./'' \<and> \<not> startswith ''..'' ''../''"
  by code_simp

section \<open>\<^verbatim>\<open>replace_import\<close>\<close>

lemma MAPPING_items_no_dot: "\<forall>kv\<in>set MAPPING_items. CHR ''.'' \<notin> set (fst kv)"
  by (simp add: MAPPING_items_def)

lemma MAPPING_keys_no_dot:
  assumes "MAPPING k = Some t"
  shows "CHR ''.'' \<notin> set k"
proof -
  from assms have "(k, t) \<in> set MAPPING_items"
    unfolding MAPPING_def by (rule map_of_SomeD)
  with MAPPING_items_no_dot show ?thesis by fastforce
qed

lemma endswith_mem: "endswith s (c # p) \<Longrightarrow> c \<in> set s"
proof -
  assume "endswith s (c # p)"
  then have "drop (length s - length (c # p)) s = c # p" by (simp add: endswith_def)
  then have "c \<in> set (drop (length s - length (c # p)) s)" by simp
  then show ?thesis by (rule in_set_dropD)
qed

lemma MAPPING_source_extension:
  assumes "endswith b ''.tsx'' \<or> endswith b ''.ts''"
  shows "MAPPING b = None"
proof -
  from assms have "CHR ''.'' \<in> set b" by (auto dest: endswith_mem)
  then show ?thesis using MAPPING_keys_no_dot [of b] by (cases "MAPPING b") auto
qed

text \<open>
  C10. The secondary \<^verbatim>\<open>components/\<close> branch never substitutes: whenever the
  extension-stripped basename is not a key of \<^verbatim>\<open>MAPPING\<close>, the unstripped basename is
  not a key either (no key contains a dot), and \<^verbatim>\<open>replace_import\<close> equals the function
  with that branch removed, on every file path and every match.
\<close>

theorem fallback_branch_dead:
  "(MAPPING (if endswith (basename p) ''.tsx'' \<or> endswith (basename p) ''.ts''
             then fst (splitext (basename p)) else basename p) = None
      \<longrightarrow> MAPPING (basename p) = None) \<and>
   replace_import root cwd filepath m = replace_import_no_fallback root cwd filepath m"
proof -
  have dead: "MAPPING (if endswith (basename q) ''.tsx'' \<or> endswith (basename q) ''.ts''
             then fst (splitext (basename q)) else basename q) = None
      \<Longrightarrow> MAPPING (basename q) = None" for q
    by (cases "endswith (basename q) ''.tsx'' \<or> endswith (basename q) ''.ts''")
       (simp_all add: MAPPING_source_extension del: disj_not1)
  have "replace_import_try root cwd filepath m = replace_import_try_no_fallback root cwd filepath m"
    unfolding replace_import_try_def replace_import_try_no_fallback_def Let_def
    using dead [of "group3 m"] by (auto split: option.splits)
  then have "replace_import root cwd filepath m = replace_import_no_fallback root cwd filepath m"
    by (simp add: replace_import_def replace_import_no_fallback_def)
  with dead [of p] show ?thesis by blast
qed

text \<open>The instance for the path \<^verbatim>\<open>./components/Foo.tsx\<close>, which reaches the branch.\<close>

theorem fallback_branch_dead_witness:
  "MAPPING ''Foo'' = None \<and> MAPPING ''Foo.tsx'' = None \<and>
   replace_import ''/repo/src'' (Inr ''/repo'') ''/repo/src/App.tsx''
     \<lparr>group1 = ''import('', group2 = ''\"'', group3 = ''./components/Foo.tsx'', group4 = ''\")''\<rparr>
   = replace_import_no_fallback ''/repo/src'' (Inr ''/repo'') ''/repo/src/App.tsx''
     \<lparr>group1 = ''import('', group2 = ''\"'', group3 = ''./components/Foo.tsx'', group4 = ''\")''\<rparr>"
proof -
  have b: "basename ''./components/Foo.tsx'' = ''Foo.tsx''" by code_simp
  have s: "fst (splitext ''Foo.tsx'') = ''Foo''" by code_simp
  have e: "endswith ''Foo.tsx'' ''.tsx''" by code_simp
  have h: "MAPPING ''Foo'' = None" by code_simp
  from fallback_branch_dead [of "''./components/Foo.tsx''" "''/repo/src''" "Inr ''/repo''" "''/repo/src/App.tsx''"
      "\<lparr>group1 = ''import('', group2 = ''\"'', group3 = ''./components/Foo.tsx'', group4 = ''\")''\<rparr>"]
  show ?thesis unfolding b using s e h by simp
qed

text \<open>
  C2. The claim: a substituted statement is the original prefix, the opening quote, the
  new path, then the original closing quote and trailing syntax, nothing added. What the
  code returns for every substituted statement is \<^verbatim>\<open>group(1) + quote + new_rel + quote +
  group(4)\<close>, and \<^verbatim>\<open>group(4)\<close> already starts with the closing quote: the result has the
  opening quote character once more behind the new path, so it is never the text the
  claim describes.
\<close>

theorem replace_import_output:
  assumes "startswith (group3 m) ''.''" and "\<not> endswith (group3 m) ''.css''"
    and "MAPPING (if endswith (basename (group3 m)) ''.tsx'' \<or> endswith (basename (group3 m)) ''.ts''
                  then fst (splitext (basename (group3 m))) else basename (group3 m)) = Some target"
    and "get_relative_path root cwd filepath target = Inr new_rel"
    and "group2 m \<noteq> []"
  shows "replace_import root cwd filepath m
           = (group1 m @ group2 m @ new_rel @ group2 m @ group4 m, []) \<and>
         fst (replace_import root cwd filepath m) \<noteq> group1 m @ group2 m @ new_rel @ group4 m"
  using assms by (simp add: replace_import_def replace_import_try_def Let_def)

text \<open>The instance for \<^verbatim>\<open>import Sidebar from './Sidebar';\<close> in \<^verbatim>\<open>src/App.tsx\<close>.\<close>

theorem replace_import_output_witness:
  "re_match import_pattern [] (''import Sidebar from '' @ [CHR 0x27] @ ''./Sidebar'' @ [CHR 0x27] @ '';'')
     = Some [''import Sidebar from '', [CHR 0x27], ''./Sidebar'', [CHR 0x27, CHR '';'']] \<and>
   get_relative_path ''/repo/src'' (Inr ''/repo'') ''/repo/src/App.tsx'' ''components/layout/Sidebar''
     = Inr ''./components/layout/Sidebar'' \<and>
   replace_import ''/repo/src'' (Inr ''/repo'') ''/repo/src/App.tsx''
     \<lparr>group1 = ''import Sidebar from '', group2 = [CHR 0x27], group3 = ''./Sidebar'',
      group4 = [CHR 0x27, CHR '';'']\<rparr>
     = (''import Sidebar from '' @ [CHR 0x27] @ ''./components/layout/Sidebar'' @ [CHR 0x27, CHR 0x27] @ '';'', [])"
proof -
  let ?m = "\<lparr>group1 = ''import Sidebar from '', group2 = [CHR 0x27], group3 = ''./Sidebar'',
      group4 = [CHR 0x27, CHR '';'']\<rparr>"
  have h1: "startswith (group3 ?m) ''.''" by code_simp
  have h2: "\<not> endswith (group3 ?m) ''.css''" by code_simp
  have h3: "MAPPING (if endswith (basename (group3 ?m)) ''.tsx'' \<or> endswith (basename (group3 ?m)) ''.ts''
                  then fst (splitext (basename (group3 ?m))) else basename (group3 ?m))
              = Some ''components/layout/Sidebar''" by code_simp
  have h4: "get_relative_path ''/repo/src'' (Inr ''/repo'') ''/repo/src/App.tsx'' ''components/layout/Sidebar''
     = Inr ''./components/layout/Sidebar''" by code_simp
  have h5: "group2 ?m \<noteq> []" by simp
  have g: "re_match import_pattern [] (''import Sidebar from '' @ [CHR 0x27] @ ''./Sidebar'' @ [CHR 0x27] @ '';'')
     = Some [''import Sidebar from '', [CHR 0x27], ''./Sidebar'', [CHR 0x27, CHR '';'']]" by code_simp
  from replace_import_output [OF h1 h2 h3 h4 h5] h4 g show ?thesis by simp
qed

text \<open>
  C4. The claim: \<^verbatim>\<open>import("./Settings")\<close> in \<^verbatim>\<open>src/features/settings/FullSettings.tsx\<close>
  is rewritten to itself. The resolver does return the sibling reference
  \<^verbatim>\<open>./Settings\<close>, but the statement that \<^verbatim>\<open>replace_import\<close> and the whole rewriting
  produce is \<^verbatim>\<open>import("./Settings"")\<close>, with the closing quote doubled.
\<close>

theorem dynamic_Settings_rewritten:
  "SRC_ROOT ''/repo'' = ''/repo/src'' \<and>
   MAPPING ''Settings'' = Some ''features/settings/Settings'' \<and>
   get_relative_path ''/repo/src'' (Inr ''/repo'') ''/repo/src/features/settings/FullSettings.tsx''
     ''features/settings/Settings'' = Inr ''./Settings'' \<and>
   re_match dynamic_import_pattern [] ''import(\"./Settings\")''
     = Some [''import('', ''\"'', ''./Settings'', ''\")''] \<and>
   replace_import ''/repo/src'' (Inr ''/repo'') ''/repo/src/features/settings/FullSettings.tsx''
     \<lparr>group1 = ''import('', group2 = ''\"'', group3 = ''./Settings'', group4 = ''\")''\<rparr>
     = (''import(\"./Settings\"\")'', []) \<and>
   rewrite ''/repo/src'' (Inr ''/repo'') ''/repo/src/features/settings/FullSettings.tsx''
     ''import(\"./Settings\")'' = Inr (''import(\"./Settings\"\")'', [])"
  by code_simp

text \<open>
  C6. Take any match of one of the two import patterns, in the text the substitution runs
  on, for which classifying or resolving the path raises. The exception is caught in
  \<^verbatim>\<open>replace_import\<close>: the statement stands in the output as it stood in the text, one
  line naming its path and the file is printed in its place among the printed lines, and
  every match before and after it is handled by \<^verbatim>\<open>replace_import\<close> as ever. The file
  pass returns: for a static import the dynamic substitution then runs on the text with
  the statement unchanged, for a dynamic import the result is the result of the pass.
\<close>

theorem statement_fault_is_local:
  assumes "replace_import_try root cwd filepath (import_match_of gs) = Inl e"
  shows
    "(re_scan import_pattern [] text = before @ Found gs # after \<longrightarrow>
        text = segs_source before @ concat gs @ segs_source after \<and>
        component_imports root cwd filepath text =
          (fst (dynamic_sub root cwd filepath
                  (segs_text (import_callback root cwd filepath) before @ concat gs
                     @ segs_text (import_callback root cwd filepath) after)),
           segs_out (import_callback root cwd filepath) before
             @ [''Error processing import '' @ group3 (import_match_of gs) @ '' in '' @ filepath
                  @ '': '' @ error_str e]
             @ segs_out (import_callback root cwd filepath) after
             @ snd (dynamic_sub root cwd filepath
                      (segs_text (import_callback root cwd filepath) before @ concat gs
                         @ segs_text (import_callback root cwd filepath) after)))) \<and>
     (re_scan dynamic_import_pattern [] (fst (static_sub root cwd filepath text))
          = before @ Found gs # after \<longrightarrow>
        fst (static_sub root cwd filepath text) = segs_source before @ concat gs @ segs_source after \<and>
        component_imports root cwd filepath text =
          (segs_text (import_callback root cwd filepath) before @ concat gs
             @ segs_text (import_callback root cwd filepath) after,
           snd (static_sub root cwd filepath text)
             @ segs_out (import_callback root cwd filepath) before
             @ [''Error processing import '' @ group3 (import_match_of gs) @ '' in '' @ filepath
                  @ '': '' @ error_str e]
             @ segs_out (import_callback root cwd filepath) after))"
proof -
  let ?line = "''Error processing import '' @ group3 (import_match_of gs) @ '' in '' @ filepath
                  @ '': '' @ error_str e"
  have cb: "import_callback root cwd filepath gs = (full_match (import_match_of gs), [?line])"
    using assms by (simp add: replace_import_def)
  have static: "re_scan import_pattern [] text = before @ Found gs # after \<Longrightarrow>
        text = segs_source before @ concat gs @ segs_source after \<and>
        component_imports root cwd filepath text =
          (fst (dynamic_sub root cwd filepath
                  (segs_text (import_callback root cwd filepath) before @ concat gs
                     @ segs_text (import_callback root cwd filepath) after)),
           segs_out (import_callback root cwd filepath) before @ [?line]
             @ segs_out (import_callback root cwd filepath) after
             @ snd (dynamic_sub root cwd filepath
                      (segs_text (import_callback root cwd filepath) before @ concat gs
                         @ segs_text (import_callback root cwd filepath) after)))"
  proof -
    assume scan: "re_scan import_pattern [] text = before @ Found gs # after"
    note kept = sub_keeps_statement [OF disjI1 [OF refl] scan cb]
    note st = kept [THEN conjunct1] and src = kept [THEN conjunct2]
    show ?thesis
      unfolding component_imports_passes st by (intro conjI src) simp
  qed
  have dynamic: "re_scan dynamic_import_pattern [] (fst (static_sub root cwd filepath text))
          = before @ Found gs # after \<Longrightarrow>
        fst (static_sub root cwd filepath text) = segs_source before @ concat gs @ segs_source after \<and>
        component_imports root cwd filepath text =
          (segs_text (import_callback root cwd filepath) before @ concat gs
             @ segs_text (import_callback root cwd filepath) after,
           snd (static_sub root cwd filepath text)
             @ segs_out (import_callback root cwd filepath) before @ [?line]
             @ segs_out (import_callback root cwd filepath) after)"
  proof -
    assume scan: "re_scan dynamic_import_pattern [] (fst (static_sub root cwd filepath text))
          = before @ Found gs # after"
    note kept = sub_keeps_statement [OF disjI2 [OF refl] scan cb]
    note st = kept [THEN conjunct1] and src = kept [THEN conjunct2]
    show ?thesis
      unfolding component_imports_passes st by (intro conjI src) simp
  qed
  from static dynamic show ?thesis by blast
qed

text \<open>
  The instances: the working directory is gone and the file path is relative, so
  \<^verbatim>\<open>os.path.relpath\<close> raises inside the handler, for a static and for a dynamic import;
  the import after the faulty one is visited and reported too.
\<close>

theorem statement_fault_is_local_witness:
  "replace_import_try ''/repo/src'' (Inl (FileNotFoundError None)) ''App.tsx''
     (import_match_of [''import S from '', ''\"'', ''./Sidebar'', ''\";''])
     = Inl (FileNotFoundError None) \<and>
   re_scan import_pattern [] ''import S from \"./Sidebar\"; import H from \"./Help\";''
     = [Found [''import S from '', ''\"'', ''./Sidebar'', ''\";''], Gap '' '',
        Found [''import H from '', ''\"'', ''./Help'', ''\";'']] \<and>
   component_imports ''/repo/src'' (Inl (FileNotFoundError None)) ''App.tsx''
     ''import S from \"./Sidebar\"; import H from \"./Help\";''
     = (''import S from \"./Sidebar\"; import H from \"./Help\";'',
        [''Error processing import ./Sidebar in App.tsx: [Errno 2] No such file or directory'',
         ''Error processing import ./Help in App.tsx: [Errno 2] No such file or directory'']) \<and>
   replace_import_try ''/repo/src'' (Inl (FileNotFoundError None)) ''App.tsx''
     (import_match_of [''import('', ''\"'', ''./Sidebar'', ''\")''])
     = Inl (FileNotFoundError None) \<and>
   re_scan dynamic_import_pattern []
     (fst (static_sub ''/repo/src'' (Inl (FileNotFoundError None)) ''App.tsx''
             ''import(\"./Sidebar\"); import(\"./Help\")''))
     = [Found [''import('', ''\"'', ''./Sidebar'', ''\")''], Gap '';'', Gap '' '',
        Found [''import('', ''\"'', ''./Help'', ''\")'']] \<and>
   component_imports ''/repo/src'' (Inl (FileNotFoundError None)) ''App.tsx''
     ''import(\"./Sidebar\"); import(\"./Help\")''
     = (''import(\"./Sidebar\"); import(\"./Help\")'',
        [''Error processing import ./Sidebar in App.tsx: [Errno 2] No such file or directory'',
         ''Error processing import ./Help in App.tsx: [Errno 2] No such file or directory''])"
proof -
  let ?gone = "Inl (FileNotFoundError None) :: py_error + string"
  let ?S = "''import S from \"./Sidebar\"; import H from \"./Help\";''"
  let ?gS = "[''import S from '', ''\"'', ''./Sidebar'', ''\";'']"
  let ?aS = "[Gap '' '', Found [''import H from '', ''\"'', ''./Help'', ''\";'']]"
  let ?D = "''import(\"./Sidebar\"); import(\"./Help\")''"
  let ?gD = "[''import('', ''\"'', ''./Sidebar'', ''\")'']"
  let ?aD = "[Gap '';'', Gap '' '', Found [''import('', ''\"'', ''./Help'', ''\")'']]"
  have rS: "replace_import_try ''/repo/src'' ?gone ''App.tsx'' (import_match_of ?gS)
              = Inl (FileNotFoundError None)"
    by code_simp
  have sS: "re_scan import_pattern [] ?S = [] @ Found ?gS # ?aS"
    by code_simp
  note cS = statement_fault_is_local [OF rS, THEN conjunct1, rule_format, OF sS, THEN conjunct2]
  have eS: "component_imports ''/repo/src'' ?gone ''App.tsx'' ?S
     = (?S,
        [''Error processing import ./Sidebar in App.tsx: [Errno 2] No such file or directory'',
         ''Error processing import ./Help in App.tsx: [Errno 2] No such file or directory''])"
    by (subst cS) code_simp
  have rD: "replace_import_try ''/repo/src'' ?gone ''App.tsx'' (import_match_of ?gD)
              = Inl (FileNotFoundError None)"
    by code_simp
  have sD: "re_scan dynamic_import_pattern [] (fst (static_sub ''/repo/src'' ?gone ''App.tsx'' ?D))
              = [] @ Found ?gD # ?aD"
    by code_simp
  note cD = statement_fault_is_local [OF rD, THEN conjunct2, rule_format, OF sD, THEN conjunct2]
  have eD: "component_imports ''/repo/src'' ?gone ''App.tsx'' ?D
     = (?D,
        [''Error processing import ./Sidebar in App.tsx: [Errno 2] No such file or directory'',
         ''Error processing import ./Help in App.tsx: [Errno 2] No such file or directory''])"
    by (subst cD) code_simp
  from rS sS eS rD sD eD show ?thesis by simp
qed

lemma replace_import_stylesheet:
  assumes "endswith (group3 m) ''.css''"
  shows "replace_import root cwd filepath m = (full_match m, [])"
  using assms by (simp add: replace_import_def replace_import_try_def Let_def)

text \<open>
  C7, as claimed: the full transformation leaves every import of a stylesheet
  byte-identical. It does not. In a relocated file the depth correction rewrites the
  \<^verbatim>\<open>../assets\<close> inside such a statement (first conjunct). The path literal the code sees
  is group 3 of the match, which ends at the first quote of either kind: of
  \<^verbatim>\<open>"./Help'.css"\<close> it sees \<^verbatim>\<open>./Help\<close> and rewrites it. And a static match whose path is
  a stylesheet can span earlier lines: a dynamic import inside it is rewritten by the
  second substitution.
\<close>

theorem stylesheet_counterexample:
  "rewrite ''/repo/src'' (Inr ''/repo'') ''/repo/src/features/capture/RecordingControls.tsx''
     ''import styles from \"../assets/capture.css\";''
     = Inr (''import styles from \"../../assets/capture.css\";'', []) \<and>
   re_scan import_pattern [] (''import s from \"./Help'' @ [CHR 0x27] @ ''.css\";'')
     = [Found [''import s from '', ''\"'', ''./Help'', [CHR 0x27]],
        Gap ''.'', Gap ''c'', Gap ''s'', Gap ''s'', Gap ''\"'', Gap '';''] \<and>
   rewrite ''/repo/src'' (Inr ''/repo'') ''/repo/src/App.tsx''
     (''import s from \"./Help'' @ [CHR 0x27] @ ''.css\";'')
     = Inr (''import s from \"./components/layout/Help\"'' @ [CHR 0x27] @ ''.css\";'', []) \<and>
   re_scan import_pattern []
     (''import \"./side.css\";'' @ [CHR 0x0A] @ ''const H = import(\"./Help\");'' @ [CHR 0x0A]
        @ ''import s from \"./a.css\";'')
     = [Found [''import \"./side.css\";'' @ [CHR 0x0A] @ ''const H = import(\"./Help\");''
                 @ [CHR 0x0A] @ ''import s from '',
               ''\"'', ''./a.css'', ''\";'']] \<and>
   rewrite ''/repo/src'' (Inr ''/repo'') ''/repo/src/App.tsx''
     (''import \"./side.css\";'' @ [CHR 0x0A] @ ''const H = import(\"./Help\");'' @ [CHR 0x0A]
        @ ''import s from \"./a.css\";'')
     = Inr (''import \"./side.css\";'' @ [CHR 0x0A]
              @ ''const H = import(\"./components/layout/Help\"\");'' @ [CHR 0x0A]
              @ ''import s from \"./a.css\";'', [])"
  by code_simp

text \<open>
  C7, amended: for every file and every import statement, that is every match of the
  static pattern in the content after the depth-correction step (the content itself in a
  file not classified as relocated) or of the dynamic pattern in the output of the static
  substitution, whose path literal (group 3) ends in \<^verbatim>\<open>.css\<close>: the substitution that
  finds it puts it back byte-identical at its place and prints nothing for it, whatever
  its basename, while the matches before and after it are handled as ever; a dynamic
  stylesheet import is so in the rewritten content, a static one in the text the dynamic
  substitution then runs on.
\<close>

theorem stylesheet_statement_kept:
  assumes "endswith (group3 (import_match_of gs)) ''.css''"
    and "relpath cwd filepath root = Inr rel"
    and "is_moved_layout_file (split_sep CHR ''/'' rel) = Inr layout"
    and "text = depth_correction (is_moved_feature_file (split_sep CHR ''/'' rel) \<or> layout) content"
  shows
    "(\<not> (is_moved_feature_file (split_sep CHR ''/'' rel) \<or> layout) \<longrightarrow> text = content) \<and>
     (re_scan import_pattern [] text = before @ Found gs # after \<longrightarrow>
        text = segs_source before @ concat gs @ segs_source after \<and>
        rewrite root cwd filepath content =
          Inr (fst (dynamic_sub root cwd filepath
                      (segs_text (import_callback root cwd filepath) before @ concat gs
                         @ segs_text (import_callback root cwd filepath) after)),
               segs_out (import_callback root cwd filepath) before
                 @ segs_out (import_callback root cwd filepath) after
                 @ snd (dynamic_sub root cwd filepath
                          (segs_text (import_callback root cwd filepath) before @ concat gs
                             @ segs_text (import_callback root cwd filepath) after)))) \<and>
     (re_scan dynamic_import_pattern [] (fst (static_sub root cwd filepath text))
          = before @ Found gs # after \<longrightarrow>
        fst (static_sub root cwd filepath text) = segs_source before @ concat gs @ segs_source after \<and>
        rewrite root cwd filepath content =
          Inr (segs_text (import_callback root cwd filepath) before @ concat gs
                 @ segs_text (import_callback root cwd filepath) after,
               snd (static_sub root cwd filepath text)
                 @ segs_out (import_callback root cwd filepath) before
                 @ segs_out (import_callback root cwd filepath) after))"
proof -
  have cb: "import_callback root cwd filepath gs = (full_match (import_match_of gs), [])"
    using assms(1) by (rule replace_import_stylesheet)
  have rw: "rewrite root cwd filepath content = Inr (component_imports root cwd filepath text)"
    using assms(2,3,4) by (simp add: rewrite_def)
  have same: "\<not> (is_moved_feature_file (split_sep CHR ''/'' rel) \<or> layout) \<Longrightarrow> text = content"
    using assms(4) by (simp add: depth_correction_def)
  have static: "re_scan import_pattern [] text = before @ Found gs # after \<Longrightarrow>
        text = segs_source before @ concat gs @ segs_source after \<and>
        rewrite root cwd filepath content =
          Inr (fst (dynamic_sub root cwd filepath
                      (segs_text (import_callback root cwd filepath) before @ concat gs
                         @ segs_text (import_callback root cwd filepath) after)),
               segs_out (import_callback root cwd filepath) before
                 @ segs_out (import_callback root cwd filepath) after
                 @ snd (dynamic_sub root cwd filepath
                          (segs_text (import_callback root cwd filepath) before @ concat gs
                             @ segs_text (import_callback root cwd filepath) after)))"
  proof -
    assume scan: "re_scan import_pattern [] text = before @ Found gs # after"
    note kept = sub_keeps_statement [OF disjI1 [OF refl] scan cb]
    note st = kept [THEN conjunct1] and src = kept [THEN conjunct2]
    show ?thesis
      unfolding rw component_imports_passes st by (intro conjI src) simp
  qed
  have dynamic: "re_scan dynamic_import_pattern [] (fst (static_sub root cwd filepath text))
          = before @ Found gs # after \<Longrightarrow>
        fst (static_sub root cwd filepath text) = segs_source before @ concat gs @ segs_source after \<and>
        rewrite root cwd filepath content =
          Inr (segs_text (import_callback root cwd filepath) before @ concat gs
                 @ segs_text (import_callback root cwd filepath) after,
               snd (static_sub root cwd filepath text)
                 @ segs_out (import_callback root cwd filepath) before
                 @ segs_out (import_callback root cwd filepath) after)"
  proof -
    assume scan: "re_scan dynamic_import_pattern [] (fst (static_sub root cwd filepath text))
          = before @ Found gs # after"
    note kept = sub_keeps_statement [OF disjI2 [OF refl] scan cb]
    note st = kept [THEN conjunct1] and src = kept [THEN conjunct2]
    show ?thesis
      unfolding rw component_imports_passes st by (intro conjI src) simp
  qed
  from same static dynamic show ?thesis by blast
qed

text \<open>
  The instances, in \<^verbatim>\<open>src/App.tsx\<close>: a static and a dynamic stylesheet import are kept
  while the import of \<^verbatim>\<open>Help\<close> behind them is rewritten.
\<close>

theorem stylesheet_statement_kept_witness:
  "endswith (group3 (import_match_of [''import s from '', ''\"'', ''./a.css'', ''\";''])) ''.css'' \<and>
   relpath (Inr ''/repo'') ''/repo/src/App.tsx'' ''/repo/src'' = Inr ''App.tsx'' \<and>
   re_scan import_pattern [] ''import s from \"./a.css\";import H from \"./Help\";''
     = [Found [''import s from '', ''\"'', ''./a.css'', ''\";''],
        Found [''import H from '', ''\"'', ''./Help'', ''\";'']] \<and>
   rewrite ''/repo/src'' (Inr ''/repo'') ''/repo/src/App.tsx''
     ''import s from \"./a.css\";import H from \"./Help\";''
     = Inr (''import s from \"./a.css\";import H from \"./components/layout/Help\"\";'', []) \<and>
   re_scan dynamic_import_pattern []
     (fst (static_sub ''/repo/src'' (Inr ''/repo'') ''/repo/src/App.tsx''
             ''import(\"./a.css\");import(\"./Help\")''))
     = [Found [''import('', ''\"'', ''./a.css'', ''\")''], Gap '';'',
        Found [''import('', ''\"'', ''./Help'', ''\")'']] \<and>
   rewrite ''/repo/src'' (Inr ''/repo'') ''/repo/src/App.tsx''
     ''import(\"./a.css\");import(\"./Help\")''
     = Inr (''import(\"./a.css\");import(\"./components/layout/Help\"\")'', [])"
proof -
  let ?cwd = "Inr ''/repo'' :: py_error + string"
  let ?S = "''import s from \"./a.css\";import H from \"./Help\";''"
  let ?gS = "[''import s from '', ''\"'', ''./a.css'', ''\";'']"
  let ?aS = "[Found [''import H from '', ''\"'', ''./Help'', ''\";'']]"
  let ?D = "''import(\"./a.css\");import(\"./Help\")''"
  let ?gD = "[''import('', ''\"'', ''./a.css'', ''\")'']"
  let ?aD = "[Gap '';'', Found [''import('', ''\"'', ''./Help'', ''\")'']]"
  have r: "relpath ?cwd ''/repo/src/App.tsx'' ''/repo/src'' = Inr ''App.tsx''" by code_simp
  have l: "is_moved_layout_file (split_sep CHR ''/'' ''App.tsx'') = Inr False" by code_simp
  have cS: "endswith (group3 (import_match_of ?gS)) ''.css''" by code_simp
  have tS: "?S = depth_correction (is_moved_feature_file (split_sep CHR ''/'' ''App.tsx'') \<or> False) ?S"
    by code_simp
  have sS: "re_scan import_pattern [] ?S = [] @ Found ?gS # ?aS" by code_simp
  note kS = stylesheet_statement_kept [OF cS r l tS, THEN conjunct2, THEN conjunct1, rule_format,
      OF sS, THEN conjunct2]
  have eS: "rewrite ''/repo/src'' ?cwd ''/repo/src/App.tsx'' ?S
     = Inr (''import s from \"./a.css\";import H from \"./components/layout/Help\"\";'', [])"
    by (subst kS) code_simp
  have cD: "endswith (group3 (import_match_of ?gD)) ''.css''" by code_simp
  have tD: "?D = depth_correction (is_moved_feature_file (split_sep CHR ''/'' ''App.tsx'') \<or> False) ?D"
    by code_simp
  have sD: "re_scan dynamic_import_pattern [] (fst (static_sub ''/repo/src'' ?cwd ''/repo/src/App.tsx'' ?D))
              = [] @ Found ?gD # ?aD" by code_simp
  note kD = stylesheet_statement_kept [OF cD r l tD, THEN conjunct2, THEN conjunct2, rule_format,
      OF sD, THEN conjunct2]
  have eD: "rewrite ''/repo/src'' ?cwd ''/repo/src/App.tsx'' ?D
     = Inr (''import(\"./a.css\");import(\"./components/layout/Help\"\")'', [])"
    by (subst kD) code_simp
  from cS r sS eS sD eD show ?thesis by simp
qed

section \<open>The rewriting of a file\<close>

text \<open>
  C8, as claimed: a file that is not directly under \<^verbatim>\<open>components/layout/\<close> or
  \<^verbatim>\<open>components/common/\<close> (and is not three or more segments deep under
  \<^verbatim>\<open>features\<close>) has no \<^verbatim>\<open>../lib\<close> reference altered by the depth correction. The
  code's layout flag only looks at the first two segments, so a file in a subdirectory
  of \<^verbatim>\<open>components/layout/\<close> is corrected as well.
\<close>

theorem depth_correction_nested_layout_counterexample:
  "relpath (Inr ''/repo'') ''/repo/src/components/layout/nav/Item.tsx'' ''/repo/src''
     = Inr ''components/layout/nav/Item.tsx'' \<and>
   dirname ''components/layout/nav/Item.tsx'' = ''components/layout/nav'' \<and>
   \<not> is_moved_feature_file (split_sep CHR ''/'' ''components/layout/nav/Item.tsx'') \<and>
   is_moved_layout_file (split_sep CHR ''/'' ''components/layout/nav/Item.tsx'') = Inr True \<and>
   depth_correction True ''import { cn } from \"../lib/utils\";''
     = ''import { cn } from \"../../lib/utils\";'' \<and>
   rewrite ''/repo/src'' (Inr ''/repo'') ''/repo/src/components/layout/nav/Item.tsx''
     ''import { cn } from \"../lib/utils\";''
     = Inr (''import { cn } from \"../../lib/utils\";'', [])"
  by code_simp

text \<open>
  C8, amended: for a file that the code does not classify as relocated, the
  depth-correction step changes nothing: the content goes to the component-import step
  as it was read, with every \<^verbatim>\<open>../lib\<close>, \<^verbatim>\<open>../hooks\<close>, \<^verbatim>\<open>../contexts\<close>, \<^verbatim>\<open>../assets\<close>,
  \<^verbatim>\<open>../utils\<close> and \<^verbatim>\<open>../types\<close> in place. The classification is computed from the path
  relative to the source root: the file is relocated when its first segment is
  \<^verbatim>\<open>features\<close> and it has at least three segments, or when its first segment is
  \<^verbatim>\<open>components\<close> and its second segment is \<^verbatim>\<open>layout\<close> or \<^verbatim>\<open>common\<close>, at any depth
  below.
\<close>

theorem depth_correction_scope:
  assumes "relpath cwd filepath root = Inr rel"
    and "\<not> is_moved_feature_file (split_sep CHR ''/'' rel)"
    and "is_moved_layout_file (split_sep CHR ''/'' rel) = Inr False"
  shows "depth_correction (is_moved_feature_file (split_sep CHR ''/'' rel) \<or> False) content = content \<and>
         rewrite root cwd filepath content = Inr (component_imports root cwd filepath content)"
  using assms by (simp add: depth_correction_def rewrite_def)

text \<open>The instance for \<^verbatim>\<open>src/App.tsx\<close> with a \<^verbatim>\<open>../lib\<close> import.\<close>

theorem depth_correction_scope_witness:
  "relpath (Inr ''/repo'') ''/repo/src/App.tsx'' ''/repo/src'' = Inr ''App.tsx'' \<and>
   depth_correction (is_moved_feature_file (split_sep CHR ''/'' ''App.tsx'') \<or> False)
     ''import { cn } from \"../lib/utils\";'' = ''import { cn } from \"../lib/utils\";'' \<and>
   rewrite ''/repo/src'' (Inr ''/repo'') ''/repo/src/App.tsx'' ''import { cn } from \"../lib/utils\";''
     = Inr (''import { cn } from \"../lib/utils\";'', [])"
proof -
  have r: "relpath (Inr ''/repo'') ''/repo/src/App.tsx'' ''/repo/src'' = Inr ''App.tsx''" by code_simp
  have f: "\<not> is_moved_feature_file (split_sep CHR ''/'' ''App.tsx'')" by code_simp
  have l: "is_moved_layout_file (split_sep CHR ''/'' ''App.tsx'') = Inr False" by code_simp
  have c: "component_imports ''/repo/src'' (Inr ''/repo'') ''/repo/src/App.tsx'' ''import { cn } from \"../lib/utils\";''
         = (''import { cn } from \"../lib/utils\";'', [])" by code_simp
  from depth_correction_scope [OF r f l, of "''import { cn } from \"../lib/utils\";''"] r c
  show ?thesis by simp
qed

text \<open>
  C1. The claim: rewriting a content twice gives the same as rewriting it once. The
  lookbehind does keep the depth correction from being applied twice (last two
  conjuncts, for one reference), but every run of the component-import step adds a
  closing quote to an import of a relocated component, also to one whose path is
  already right.
\<close>

theorem rewrite_twice_differs:
  "rewrite ''/repo/src'' (Inr ''/repo'') ''/repo/src/App.tsx'' ''import Sidebar from \"./components/layout/Sidebar\";''
     = Inr (''import Sidebar from \"./components/layout/Sidebar\"\";'', []) \<and>
   rewrite ''/repo/src'' (Inr ''/repo'') ''/repo/src/App.tsx'' ''import Sidebar from \"./components/layout/Sidebar\"\";''
     = Inr (''import Sidebar from \"./components/layout/Sidebar\"\"\";'', []) \<and>
   depth_sub ''lib'' (depth_sub ''lib'' ''from \"../lib/api\"'') = depth_sub ''lib'' ''from \"../lib/api\"'' \<and>
   depth_sub ''lib'' ''from \"../lib/api\"'' = ''from \"../../lib/api\"''"
  by code_simp

section \<open>\<^verbatim>\<open>main\<close>\<close>

text \<open>
  Reading: line ends are translated, a file whose bytes do not decode raises, and the
  message of an \<^verbatim>\<open>OSError\<close> quotes the file name as \<^verbatim>\<open>repr\<close> does.
\<close>

lemma read_file_examples:
  "read_file \<lparr>fs = [''a.ts'' \<mapsto> \<lparr>readable = True, writable = True, undecodable = None,
                                  contents = [CHR ''a'', CHR 0x0D, CHR 0x0A, CHR ''b'', CHR 0x0D, CHR ''c'']\<rparr>],
              stdout = []\<rparr> ''a.ts''
     = Inr [CHR ''a'', CHR 0x0A, CHR ''b'', CHR 0x0A, CHR ''c''] \<and>
   read_file \<lparr>fs = [''a.ts'' \<mapsto> \<lparr>readable = True, writable = True,
                                  undecodable = Some ''invalid start byte'', contents = []\<rparr>],
              stdout = []\<rparr> ''a.ts''
     = Inl (UnicodeDecodeError ''invalid start byte'') \<and>
   error_str (FileNotFoundError (Some (''it'' @ [CHR 0x27] @ ''s.ts'')))
     = ''[Errno 2] No such file or directory: \"it'' @ [CHR 0x27] @ ''s.ts\"''"
  by code_simp

lemma main_files_append:
  "main_files root cwd dir (pre @ post) w =
     (case main_files root cwd dir pre w of
        (Some e, w') \<Rightarrow> (Some e, w')
      | (None, w') \<Rightarrow> main_files root cwd dir post w')"
  by (induction pre arbitrary: w) (auto split: prod.splits option.splits)

lemma main_walk_append:
  "main_walk root cwd (before @ rest) w =
     (case main_walk root cwd before w of
        (Some e, w') \<Rightarrow> (Some e, w')
      | (None, w') \<Rightarrow> main_walk root cwd rest w')"
  by (induction before arbitrary: w) (auto split: prod.splits option.splits)

text \<open>
  C5, as claimed: when one file fails, the run goes on with the next files and the
  failure is reported. It does not: \<^verbatim>\<open>main\<close> has no handler. With the unreadable
  \<^verbatim>\<open>a.ts\<close> first, the exception leaves \<^verbatim>\<open>main\<close>, nothing is printed after the first
  line, and \<^verbatim>\<open>b.tsx\<close> keeps the import that a run on it alone would rewrite.
\<close>

theorem main_aborts_counterexample:
  "fst (main ''/repo/src'' (Inr ''/repo'') [(''/repo/src'', [], [''a.ts'', ''b.tsx''])] two_file_tree)
     = Some (PermissionError (Some ''/repo/src/a.ts'')) \<and>
   stdout (snd (main ''/repo/src'' (Inr ''/repo'') [(''/repo/src'', [], [''a.ts'', ''b.tsx''])] two_file_tree))
     = [''Starting import fix...''] \<and>
   map_option contents
     (fs (snd (main ''/repo/src'' (Inr ''/repo'') [(''/repo/src'', [], [''a.ts'', ''b.tsx''])] two_file_tree))
        ''/repo/src/b.tsx'') = Some ''import(\"./Sidebar\")'' \<and>
   map_option contents
     (fs (snd (fix_imports_in_file ''/repo/src'' (Inr ''/repo'') ''/repo/src/b.tsx'' two_file_tree))
        ''/repo/src/b.tsx'') = Some ''import(\"./components/layout/Sidebar\"\")'' \<and>
   error_str (PermissionError (Some ''/repo/src/a.ts''))
     = ''[Errno 13] Permission denied: '' @ [CHR 0x27] @ ''/repo/src/a.ts'' @ [CHR 0x27]"
  by code_simp

text \<open>
  C5, amended: \<^verbatim>\<open>main\<close> stops at the first file whose processing raises. If the
  directories before it and the files before it in its directory are processed without an
  exception, and the file has a source extension and its processing raises \<open>e\<close>, then
  \<^verbatim>\<open>main\<close> ends with \<open>e\<close> in the world of that moment: the later files and directories
  are not processed and \<^verbatim>\<open>Done.\<close> is not printed.
\<close>

theorem main_stops_at_first_failure:
  assumes "main_walk root cwd before (print ''Starting import fix...'' w) = (None, w1)"
    and "main_files root cwd dir pre w1 = (None, w2)"
    and "endswith file ''.tsx'' \<or> endswith file ''.ts''"
    and "fix_imports_in_file root cwd (join dir file) w2 = (Some e, w3)"
  shows "main root cwd (before @ (dir, dirs, pre @ file # post) # rest) w = (Some e, w3)"
proof -
  have "main_files root cwd dir (pre @ file # post) w1 = (Some e, w3)"
    using assms(2,3,4) by (simp add: main_files_append)
  then have "main_walk root cwd ((dir, dirs, pre @ file # post) # rest) w1 = (Some e, w3)"
    by simp
  then have "main_walk root cwd (before @ (dir, dirs, pre @ file # post) # rest)
               (print ''Starting import fix...'' w) = (Some e, w3)"
    using assms(1) by (simp add: main_walk_append)
  then show ?thesis by (simp add: main_def)
qed

text \<open>The instance for the tree with the unreadable \<^verbatim>\<open>a.ts\<close> first.\<close>

theorem main_stops_at_first_failure_witness:
  "main ''/repo/src'' (Inr ''/repo'') [(''/repo/src'', [], [''a.ts'', ''b.tsx''])] two_file_tree
     = (Some (PermissionError (Some ''/repo/src/a.ts'')),
        print ''Starting import fix...'' two_file_tree)"
proof -
  let ?w1 = "print ''Starting import fix...'' two_file_tree"
  have h1: "main_walk ''/repo/src'' (Inr ''/repo'') [] ?w1 = (None, ?w1)" by simp
  have h2: "main_files ''/repo/src'' (Inr ''/repo'') ''/repo/src'' [] ?w1 = (None, ?w1)" by simp
  have h3: "endswith ''a.ts'' ''.tsx'' \<or> endswith ''a.ts'' ''.ts''" by (simp add: endswith_def)
  have j: "join ''/repo/src'' ''a.ts'' = ''/repo/src/a.ts''"
    by (simp add: join_def startswith_def endswith_def)
  have h4: "fix_imports_in_file ''/repo/src'' (Inr ''/repo'') (join ''/repo/src'' ''a.ts'') ?w1
              = (Some (PermissionError (Some ''/repo/src/a.ts'')), ?w1)"
    unfolding j by (simp add: fix_imports_in_file_def read_file_def print_def)
  from main_stops_at_first_failure [OF h1 h2 h3 h4, of "[]" "[''b.tsx'']" "[]"]
  show ?thesis by simp
qed

end
